theory Spec2Isabelle
  imports Main "HOL-Library.Sublist"
begin

section \<open>Strings and messages\<close>

text \<open>
  A JavaScript string is a sequence of UTF-16 code units; the regular expressions of the
  source (none has the \<open>u\<close> flag) and \<open>indexOf\<close>, \<open>includes\<close>, \<open>substring\<close> all work
  on code units. A code unit is a natural number here.
\<close>

type_synonym jsstring = "nat list"

definition str :: "string \<Rightarrow> jsstring" where
  "str s = map of_char s"

text \<open>
  The transport's message object, with the fields the modelled functions read. An absent
  (\<open>undefined\<close>/\<open>null\<close>) field is \<open>None\<close>. \<open>messageContent\<close> is \<open>message.message\<close>,
  holding \<open>conversation\<close> and \<open>extendedTextMessage.text\<close>; \<open>groupMetadata\<close> has
  the shape of what the transport's \<open>groupMetadata\<close> call answers.
\<close>

record gmParticipant =
  gpId :: "jsstring option"
  gpName :: "jsstring option"
  gpIsAdmin :: bool
  gpIsSuperAdmin :: bool

record groupMeta =
  subject :: "jsstring option"
  desc :: "jsstring option"
  gmParticipants :: "gmParticipant list option"

record content =
  msgConversation :: "jsstring option"
  msgExtendedText :: "jsstring option"

record msgKey =
  remoteJid :: "jsstring option"
  participant :: "jsstring option"
  keyId :: "jsstring option"

record message =
  key :: "msgKey option"
  pushName :: "jsstring option"
  messageContent :: "content option"
  groupMetadata :: "groupMeta option"
  replyTo :: "jsstring option"

text \<open>JavaScript truthiness of an optional string: absent and the empty string are falsy.\<close>

fun truthy :: "jsstring option \<Rightarrow> bool" where
  "truthy None = False"
| "truthy (Some s) = (s \<noteq> [])"

text \<open>\<open>a || b\<close> on optional strings, and \<open>a || 'literal'\<close>.\<close>

definition orElse :: "jsstring option \<Rightarrow> jsstring option \<Rightarrow> jsstring option" where
  "orElse a b = (if truthy a then a else b)"

definition orDefault :: "jsstring option \<Rightarrow> jsstring \<Rightarrow> jsstring" where
  "orDefault a d = (if truthy a then the a else d)"

section \<open>MessageStore\<close>

text \<open>
  A JavaScript \<open>Map\<close> iterates in insertion order: it is an association list with
  distinct keys. \<open>set\<close> on a present key replaces the value in place, on a new key it
  appends; \<open>delete\<close> removes the entry.
\<close>

fun mapSet :: "'k \<Rightarrow> 'v \<Rightarrow> ('k \<times> 'v) list \<Rightarrow> ('k \<times> 'v) list" where
  "mapSet k v [] = [(k, v)]"
| "mapSet k v ((k', v') # es) = (if k' = k then (k, v) # es else (k', v') # mapSet k v es)"

definition mapDelete :: "'k \<Rightarrow> ('k \<times> 'v) list \<Rightarrow> ('k \<times> 'v) list" where
  "mapDelete k es = filter (\<lambda>e. fst e \<noteq> k) es"

definition mapGet :: "('k \<times> 'v) list \<Rightarrow> 'k \<Rightarrow> 'v option" where
  "mapGet es k = map_of es k"

datatype error = InvalidMessage | TypeError

text \<open>
  \<open>src/messageStore.js\<close>: a \<open>Map\<close> and a queue of identifiers. The constructor takes
  \<open>options.maxSize || 100\<close>, so an absent or zero size is 100.
\<close>

record store =
  maxSize :: nat
  messages :: "(jsstring \<times> message) list"
  messageQueue :: "jsstring list"

definition newStore :: "nat option \<Rightarrow> store" where
  "newStore opt =
     \<lparr>maxSize = (case opt of None \<Rightarrow> 100 | Some n \<Rightarrow> if n = 0 then 100 else n),
      messages = [], messageQueue = []\<rparr>"

text \<open>
  \<open>add\<close> returns the store after the call together with the outcome: \<open>Inl\<close> is the
  thrown error, \<open>Inr\<close> the returned identifier. \<open>shift\<close> on an empty queue gives
  \<open>undefined\<close>, and deleting it from the map does nothing.
\<close>

definition evictOldest :: "store \<Rightarrow> store" where
  "evictOldest s =
     (if maxSize s \<le> length (messageQueue s) then
        (case messageQueue s of
           [] \<Rightarrow> s
         | oldestId # q \<Rightarrow> s\<lparr>messages := mapDelete oldestId (messages s), messageQueue := q\<rparr>)
      else s)"

definition add :: "store \<Rightarrow> message option \<Rightarrow> store \<times> (error + jsstring)" where
  "add s m =
     (case m of
        None \<Rightarrow> (s, Inl InvalidMessage)
      | Some msg \<Rightarrow>
          (case key msg of
             None \<Rightarrow> (s, Inl InvalidMessage)
           | Some k \<Rightarrow>
               (if \<not> truthy (keyId k) then (s, Inl InvalidMessage)
                else
                  let messageId = the (keyId k);
                      s1 = evictOldest s
                  in (s1\<lparr>messages := mapSet messageId msg (messages s1),
                          messageQueue := messageQueue s1 @ [messageId]\<rparr>,
                      Inr messageId))))"

definition get :: "store \<Rightarrow> jsstring \<Rightarrow> message option" where
  "get s messageId = mapGet (messages s) messageId"

definition has :: "store \<Rightarrow> jsstring \<Rightarrow> bool" where
  "has s messageId = (mapGet (messages s) messageId \<noteq> None)"

definition remove :: "store \<Rightarrow> jsstring \<Rightarrow> store \<times> bool" where
  "remove s messageId =
     (if \<not> has s messageId then (s, False)
      else (s\<lparr>messages := mapDelete messageId (messages s),
               messageQueue := remove1 messageId (messageQueue s)\<rparr>, True))"

definition storeSize :: "store \<Rightarrow> nat" where
  "storeSize s = length (messages s)"

text \<open>
  \<open>src/src/core/messageStore.js\<close>: the \<open>Map\<close> alone. \<open>add\<close> reads
  \<open>message.key.id\<close> without a check: a missing message or key raises a
  \<open>TypeError\<close>, a missing identifier is the key \<open>undefined\<close> (\<open>None\<close>) of the map.
  The entry is stored first; the first key of the map is deleted when the size then
  exceeds \<open>maxSize\<close>.
\<close>

record coreStore =
  coreMaxSize :: nat
  coreMessages :: "(jsstring option \<times> message) list"

definition newCoreStore :: "nat option \<Rightarrow> coreStore" where
  "newCoreStore opt =
     \<lparr>coreMaxSize = (case opt of None \<Rightarrow> 100 | Some n \<Rightarrow> if n = 0 then 100 else n),
      coreMessages = []\<rparr>"

definition coreAdd :: "coreStore \<Rightarrow> message option \<Rightarrow> coreStore \<times> (error + jsstring option)" where
  "coreAdd s m =
     (case m of
        None \<Rightarrow> (s, Inl TypeError)
      | Some msg \<Rightarrow>
          (case key msg of
             None \<Rightarrow> (s, Inl TypeError)
           | Some k \<Rightarrow>
               let messageId = keyId k;
                   ms = mapSet messageId msg (coreMessages s);
                   ms' = (if coreMaxSize s < length ms then
                            (case ms of [] \<Rightarrow> ms | (oldestKey, _) # _ \<Rightarrow> mapDelete oldestKey ms)
                          else ms)
               in (s\<lparr>coreMessages := ms'\<rparr>, Inr messageId)))"

definition coreGet :: "coreStore \<Rightarrow> jsstring option \<Rightarrow> message option" where
  "coreGet s messageId = mapGet (coreMessages s) messageId"

definition coreRemove :: "coreStore \<Rightarrow> jsstring option \<Rightarrow> coreStore \<times> bool" where
  "coreRemove s messageId =
     (s\<lparr>coreMessages := mapDelete messageId (coreMessages s)\<rparr>,
      mapGet (coreMessages s) messageId \<noteq> None)"

definition coreSize :: "coreStore \<Rightarrow> nat" where
  "coreSize s = length (coreMessages s)"

text \<open>A message with the given identifier and text, and nothing else.\<close>

definition mkMessage :: "string \<Rightarrow> string \<Rightarrow> message" where
  "mkMessage i t =
     \<lparr>key = Some \<lparr>remoteJid = None, participant = None, keyId = Some (str i)\<rparr>,
      pushName = None,
      messageContent = Some \<lparr>msgConversation = Some (str t), msgExtendedText = None\<rparr>,
      groupMetadata = None, replyTo = None\<rparr>"

section \<open>Character classes and regular expressions of the mention service\<close>

text \<open>
  The classes the source's regular expressions use, on code units: \<open>\d\<close> is
  \<open>0-9\<close>, \<open>\w\<close> is \<open>A-Za-z0-9_\<close>, \<open>\s\<close> is the ECMAScript white space and line
  terminator set, which is also what \<open>trim\<close> removes.
\<close>

definition isDigit :: "nat \<Rightarrow> bool" where
  "isDigit c = (48 \<le> c \<and> c \<le> 57)"

definition isUpper :: "nat \<Rightarrow> bool" where
  "isUpper c = (65 \<le> c \<and> c \<le> 90)"

definition isLower :: "nat \<Rightarrow> bool" where
  "isLower c = (97 \<le> c \<and> c \<le> 122)"

definition isAlpha :: "nat \<Rightarrow> bool" where
  "isAlpha c = (isUpper c \<or> isLower c)"

definition isAlnum :: "nat \<Rightarrow> bool" where
  "isAlnum c = (isAlpha c \<or> isDigit c)"

definition isWord :: "nat \<Rightarrow> bool" where
  "isWord c = (isAlnum c \<or> c = 95)"

definition isSpace :: "nat \<Rightarrow> bool" where
  "isSpace c = ((9 \<le> c \<and> c \<le> 13) \<or> c = 32 \<or> c = 160 \<or> c = 5760 \<or> (8192 \<le> c \<and> c \<le> 8202)
                \<or> c = 8232 \<or> c = 8233 \<or> c = 8239 \<or> c = 8287 \<or> c = 12288 \<or> c = 65279)"

definition notSpace :: "nat \<Rightarrow> bool" where
  "notSpace c = (\<not> isSpace c)"

definition trim :: "jsstring \<Rightarrow> jsstring" where
  "trim s = rev (dropWhile isSpace (rev (dropWhile isSpace s)))"

text \<open>\<open>s.includes(p)\<close>: \<open>p\<close> occurs in \<open>s\<close> as a contiguous run.\<close>

fun jsIncludes :: "jsstring \<Rightarrow> jsstring \<Rightarrow> bool" where
  "jsIncludes [] p = (p = [])"
| "jsIncludes (c # cs) p = (prefix p (c # cs) \<or> jsIncludes cs p)"

text \<open>\<open>s.split('@')[0]\<close>: the part before the first \<open>@\<close> (code unit 64).\<close>

definition beforeAt :: "jsstring \<Rightarrow> jsstring" where
  "beforeAt s = takeWhile (\<lambda>c. c \<noteq> 64) s"

text \<open>
  \<open>/@\s*[U+202A]?(\+?\d+)[U+202C]?/g\<close>, tried right after an \<open>@\<close>: the captured
  number and the text left after the match. Every quantifier of the pattern is followed
  by a class disjoint from its own, so the greedy choice is the only one that can match.
\<close>

definition matchNumberAt :: "jsstring \<Rightarrow> (jsstring \<times> jsstring) option" where
  "matchNumberAt cs =
     (let r1 = dropWhile isSpace cs;
          r2 = (case r1 of [] \<Rightarrow> r1 | c # r \<Rightarrow> if c = 8234 then r else r1);
          sign = (case r2 of [] \<Rightarrow> [] | c # r \<Rightarrow> if c = 43 then [43] else []);
          r3 = (case r2 of [] \<Rightarrow> r2 | c # r \<Rightarrow> if c = 43 then r else r2);
          ds = takeWhile isDigit r3;
          r4 = dropWhile isDigit r3
      in if ds = [] then None
         else Some (trim (sign @ ds), case r4 of [] \<Rightarrow> r4 | c # r \<Rightarrow> if c = 8236 then r else r4))"

text \<open>The \<open>exec\<close> loop: after a match the search resumes behind it, otherwise one further.\<close>

function scanNumbers :: "jsstring \<Rightarrow> jsstring list" where
  "scanNumbers [] = []"
| "scanNumbers (c # cs) =
     (if c = 64 then
        (case matchNumberAt cs of
           Some (n, rest) \<Rightarrow> n # scanNumbers rest
         | None \<Rightarrow> scanNumbers cs)
      else scanNumbers cs)"
  by pat_completeness auto
termination
proof (relation "measure length")
  fix c :: nat and cs x y :: jsstring and x2 :: "jsstring \<times> jsstring"
  assume "matchNumberAt cs = Some x2" and "(x, y) = x2"
  then have m: "matchNumberAt cs = Some (x, y)" by simp
  let ?r1 = "dropWhile isSpace cs"
  let ?r2 = "case ?r1 of [] \<Rightarrow> ?r1 | c # r \<Rightarrow> if c = 8234 then r else ?r1"
  let ?r3 = "case ?r2 of [] \<Rightarrow> ?r2 | c # r \<Rightarrow> if c = 43 then r else ?r2"
  let ?r4 = "dropWhile isDigit ?r3"
  have 1: "length ?r1 \<le> length cs" by (rule length_dropWhile_le)
  have 2: "length ?r2 \<le> length ?r1" by (simp split: list.splits)
  have 3: "length ?r3 \<le> length ?r2" by (simp split: list.splits)
  have 4: "length ?r4 \<le> length ?r3" by (rule length_dropWhile_le)
  have "y = (case ?r4 of [] \<Rightarrow> ?r4 | c # r \<Rightarrow> if c = 8236 then r else ?r4)"
    using m by (simp add: matchNumberAt_def Let_def split: if_splits)
  then have "length y \<le> length ?r4" by (simp split: list.splits)
  with 1 2 3 4 have "length y \<le> length cs" by linarith
  then show "(y, c # cs) \<in> measure length" by simp
qed auto

text \<open>
  \<open>text.split(/\s+/)\<close>: the pieces between runs of white space; a leading or a trailing
  run leaves an empty piece.
\<close>

function splitWs :: "jsstring \<Rightarrow> jsstring list" where
  "splitWs [] = [[]]"
| "splitWs (c # cs) =
     (if isSpace c then [] # splitWs (dropWhile isSpace cs)
      else (case splitWs cs of [] \<Rightarrow> [[c]] | w # ws \<Rightarrow> (c # w) # ws))"
  by pat_completeness auto
termination
  by (relation "measure length") (auto simp: length_dropWhile_le less_Suc_eq_le)

text \<open>\<open>/^\+?\d+$/\<close> on the digits and plus signs kept from a word.\<close>

definition validNumber :: "jsstring \<Rightarrow> bool" where
  "validNumber n =
     (case n of
        [] \<Rightarrow> False
      | c # r \<Rightarrow> if c = 43 then r \<noteq> [] \<and> list_all isDigit r else list_all isDigit n)"

definition wordNumber :: "jsstring \<Rightarrow> jsstring list" where
  "wordNumber word =
     (case word of
        [] \<Rightarrow> []
      | c # rest \<Rightarrow>
          if c = 64 then
            (let numberPart = filter (\<lambda>d. isDigit d \<or> d = 43) rest
             in if numberPart \<noteq> [] \<and> validNumber numberPart then [numberPart] else [])
          else [])"

definition extractMentionedNumbers :: "jsstring \<Rightarrow> jsstring list" where
  "extractMentionedNumbers messageText =
     (if messageText = [] then []
      else
        let matches = scanNumbers messageText
        in if matches = [] then concat (map wordNumber (splitWs messageText)) else matches)"

text \<open>
  \<open>extractMentionedNames\<close>. The positions of \<open>@\<close> are collected first; each is then
  looked at with the character before it and the text behind it.
\<close>

definition atSymbolPositions :: "jsstring \<Rightarrow> nat list" where
  "atSymbolPositions messageText = filter (\<lambda>i. messageText ! i = 64) [0..<length messageText]"

text \<open>\<open>/[\s.,!?;:'"]/\<close>, the end of the first word.\<close>

definition isStop :: "nat \<Rightarrow> bool" where
  "isStop c = (isSpace c \<or> c = 46 \<or> c = 44 \<or> c = 33 \<or> c = 63 \<or> c = 59 \<or> c = 58 \<or> c = 39 \<or> c = 34)"

definition notStop :: "nat \<Rightarrow> bool" where
  "notStop c = (\<not> isStop c)"

text \<open>\<open>[A-Z][a-z]+\<close> at the head of a string: the match and the rest.\<close>

definition capWord :: "jsstring \<Rightarrow> (jsstring \<times> jsstring) option" where
  "capWord s =
     (case s of
        [] \<Rightarrow> None
      | c # cs \<Rightarrow>
          if isUpper c \<and> takeWhile isLower cs \<noteq> [] then Some (c # takeWhile isLower cs, dropWhile isLower cs)
          else None)"

text \<open>
  \<open>/^\s+([A-Z][a-z]+)(\s+[A-Z][a-z]+)?/\<close> on the text behind the first word: group 1
  and, when it took part, group 2 (with its leading white space).
\<close>

definition matchNameTail :: "jsstring \<Rightarrow> (jsstring \<times> jsstring option) option" where
  "matchNameTail remainingText =
     (if takeWhile isSpace remainingText = [] then None
      else
        (case capWord (dropWhile isSpace remainingText) of
           None \<Rightarrow> None
         | Some (m1, r2) \<Rightarrow>
             (if takeWhile isSpace r2 = [] then Some (m1, None)
              else
                (case capWord (dropWhile isSpace r2) of
                   None \<Rightarrow> Some (m1, None)
                 | Some (w2, _) \<Rightarrow> Some (m1, Some (takeWhile isSpace r2 @ w2))))))"

definition nameAt :: "jsstring \<Rightarrow> nat \<Rightarrow> jsstring list" where
  "nameAt messageText position =
     (if 0 < position \<and> isAlnum (messageText ! (position - 1)) then []
      else
        let textAfterAt = drop (position + 1) messageText;
            firstWord = takeWhile notStop textAfterAt
        in if list_ex isDigit firstWord \<or> length firstWord < 2 then []
           else
             (case matchNameTail (dropWhile notStop textAfterAt) of
                Some (m1, m2) \<Rightarrow> [firstWord @ [32] @ m1 @ (case m2 of None \<Rightarrow> [] | Some w \<Rightarrow> w)]
              | None \<Rightarrow> [firstWord]))"

text \<open>\<open>/@([a-zA-Z]+_[a-zA-Z]+)/g\<close>, tried right after an \<open>@\<close>, and its \<open>exec\<close> loop.\<close>

definition matchUnderscoreAt :: "jsstring \<Rightarrow> (jsstring \<times> jsstring) option" where
  "matchUnderscoreAt cs =
     (let a = takeWhile isAlpha cs
      in if a = [] then None
         else
           (case dropWhile isAlpha cs of
              [] \<Rightarrow> None
            | u # r \<Rightarrow>
                if u = 95 \<and> takeWhile isAlpha r \<noteq> []
                then Some (a @ [95] @ takeWhile isAlpha r, dropWhile isAlpha r)
                else None))"

function scanUnderscore :: "jsstring \<Rightarrow> jsstring list" where
  "scanUnderscore [] = []"
| "scanUnderscore (c # cs) =
     (if c = 64 then
        (case matchUnderscoreAt cs of
           Some (n, rest) \<Rightarrow> n # scanUnderscore rest
         | None \<Rightarrow> scanUnderscore cs)
      else scanUnderscore cs)"
  by pat_completeness auto
termination
proof (relation "measure length")
  fix c :: nat and cs x y :: jsstring and x2 :: "jsstring \<times> jsstring"
  assume "matchUnderscoreAt cs = Some x2" and "(x, y) = x2"
  then have m: "matchUnderscoreAt cs = Some (x, y)" by simp
  from m obtain r where r: "dropWhile isAlpha cs = 95 # r" and y: "y = dropWhile isAlpha r"
    by (auto simp: matchUnderscoreAt_def Let_def split: if_splits list.splits)
  have "length y \<le> length r" by (simp add: y length_dropWhile_le)
  moreover have "length (95 # r) \<le> length cs" using length_dropWhile_le[of isAlpha cs] by (simp add: r)
  ultimately show "(y, c # cs) \<in> measure length" by simp
qed auto

definition pushNew :: "jsstring list \<Rightarrow> jsstring \<Rightarrow> jsstring list" where
  "pushNew mentionedNames n = (if n \<in> set mentionedNames then mentionedNames else mentionedNames @ [n])"

definition extractMentionedNames :: "jsstring \<Rightarrow> jsstring list" where
  "extractMentionedNames messageText =
     (if messageText = [] then []
      else foldl pushNew
             (concat (map (nameAt messageText) (atSymbolPositions messageText)))
             (scanUnderscore messageText))"

text \<open>
  \<open>extractActualMessage\<close>. The name is escaped before it enters the pattern, so
  \<open>@name\b\<close> matches the literal text; \<open>\b\<close> holds where exactly one of the
  characters on its two sides (the end of the text counts as none) is a word character.
\<close>

definition wordBoundary :: "nat \<Rightarrow> jsstring \<Rightarrow> bool" where
  "wordBoundary prev rest = (isWord prev \<noteq> (case rest of [] \<Rightarrow> False | d # _ \<Rightarrow> isWord d))"

function removeMention :: "jsstring \<Rightarrow> jsstring \<Rightarrow> jsstring" where
  "removeMention name [] = []"
| "removeMention name (c # cs) =
     (if c = 64 \<and> prefix name cs \<and> wordBoundary (last (64 # name)) (drop (length name) cs)
      then removeMention name (drop (length name) cs)
      else c # removeMention name cs)"
  by pat_completeness auto
termination
  by (relation "measure (\<lambda>(name, t). length t)") auto

text \<open>\<open>/@\S+\s?/g\<close> replaced by the empty string.\<close>

function removeAtTokens :: "jsstring \<Rightarrow> jsstring" where
  "removeAtTokens [] = []"
| "removeAtTokens (c # cs) =
     (if c = 64 \<and> takeWhile notSpace cs \<noteq> []
      then removeAtTokens (case dropWhile notSpace cs of [] \<Rightarrow> [] | d # r \<Rightarrow> r)
      else c # removeAtTokens cs)"
  by pat_completeness auto
termination
proof (relation "measure length")
  fix c :: nat and cs :: jsstring
  have "length (case dropWhile notSpace cs of [] \<Rightarrow> [] | d # r \<Rightarrow> r) \<le> length (dropWhile notSpace cs)"
    by (simp split: list.splits)
  also have "\<dots> \<le> length cs" by (rule length_dropWhile_le)
  finally show "(case dropWhile notSpace cs of [] \<Rightarrow> [] | d # r \<Rightarrow> r, c # cs) \<in> measure length"
    by simp
qed auto

text \<open>\<open>/\s+/g\<close> replaced by one space.\<close>

function collapseWs :: "jsstring \<Rightarrow> jsstring" where
  "collapseWs [] = []"
| "collapseWs (c # cs) =
     (if isSpace c then 32 # collapseWs (dropWhile isSpace cs) else c # collapseWs cs)"
  by pat_completeness auto
termination
  by (relation "measure length") (auto simp: length_dropWhile_le less_Suc_eq_le)

definition extractActualMessage :: "jsstring \<Rightarrow> jsstring list \<Rightarrow> jsstring list \<Rightarrow> jsstring" where
  "extractActualMessage messageText mentionedNames mentionedNumbers =
     (if messageText = [] then []
      else
        let cleaned1 = foldl (\<lambda>t name. removeMention name t) messageText mentionedNames;
            cleaned2 = foldl (\<lambda>t number. removeMention number t) cleaned1 mentionedNumbers
        in trim (collapseWs (removeAtTokens cleaned2)))"

section \<open>User data service\<close>

text \<open>
  The persisted record of one conversation. Clock values (\<open>lastSeen\<close>, \<open>updatedAt\<close>,
  \<open>createdAt\<close>, \<open>lastActivity\<close>, \<open>lastActive\<close>, message timestamps) and the avatar,
  which nothing sets, are left out. An object used as a dictionary (\<open>participants\<close>) is
  an association list in the order of \<open>Object.entries\<close>.
\<close>

record profile =
  name :: "jsstring option"
  description :: "jsstring option"
  memberCount :: "nat option"

record participantData =
  partName :: "jsstring option"
  isAdmin :: "bool option"
  isSuperAdmin :: "bool option"

text \<open>\<open>moId\<close> is \<open>None\<close> when the identifier is taken from the clock.\<close>

record messageObj =
  moId :: "jsstring option"
  moText :: jsstring
  moFromMe :: bool
  moSender :: "(jsstring \<times> jsstring) option"
  moReplyTo :: "jsstring option"

record preferences =
  language :: jsstring
  aiEnabled :: bool
  notifyOnMention :: bool

record topParticipant =
  tpId :: jsstring
  tpName :: jsstring
  tpMessageCount :: nat

record stats =
  messageCount :: nat
  topParticipants :: "topParticipant list"

record userData =
  userId :: jsstring
  isGroup :: bool
  profile :: profile
  conversation :: "messageObj list"
  participants :: "(jsstring \<times> participantData) list"
  preferences :: preferences
  stats :: stats

text \<open>
  The data directory: each file has a directory, a name and a content that parses to a
  record or does not. The list is in the order \<open>readdirSync\<close> lists the files, which
  is by file name within a directory: writing a file that exists replaces its content in
  place, and a file written for the first time is put before the first file of its
  directory whose name comes later.
\<close>

datatype dataDir = GROUP_DATA_DIR | INBOX_DATA_DIR

datatype fileContent = Parsed userData | Unparseable

type_synonym dataFiles = "((dataDir \<times> jsstring) \<times> fileContent) list"

definition getUserDataPath :: "jsstring \<Rightarrow> bool \<Rightarrow> dataDir \<times> jsstring" where
  "getUserDataPath uid grp =
     (let cleanId = map (\<lambda>c. if isAlnum c then c else 95) uid;
          baseDir = (if grp then GROUP_DATA_DIR else INBOX_DATA_DIR)
      in (baseDir, cleanId @ str ''.json''))"

definition defaultUserData :: "jsstring \<Rightarrow> bool \<Rightarrow> userData" where
  "defaultUserData uid grp =
     \<lparr>userId = uid, isGroup = grp,
      profile = \<lparr>name = None, description = None, memberCount = (if grp then Some 0 else None)\<rparr>,
      conversation = [],
      participants = [],
      preferences = \<lparr>language = str ''auto'', aiEnabled = True, notifyOnMention = True\<rparr>,
      stats = \<lparr>messageCount = 0, topParticipants = []\<rparr>\<rparr>"

definition loadUserData :: "dataFiles \<Rightarrow> jsstring \<Rightarrow> bool \<Rightarrow> userData" where
  "loadUserData files uid grp =
     (case mapGet files (getUserDataPath uid grp) of
        Some (Parsed d) \<Rightarrow> d
      | _ \<Rightarrow> defaultUserData uid grp)"

text \<open>The order of file names: code unit by code unit, a proper prefix first.\<close>

fun nameBefore :: "jsstring \<Rightarrow> jsstring \<Rightarrow> bool" where
  "nameBefore [] [] = False"
| "nameBefore [] (y # ys) = True"
| "nameBefore (x # xs) [] = False"
| "nameBefore (x # xs) (y # ys) = (x < y \<or> (x = y \<and> nameBefore xs ys))"

fun insertFile :: "dataDir \<times> jsstring \<Rightarrow> fileContent \<Rightarrow> dataFiles \<Rightarrow> dataFiles" where
  "insertFile k v [] = [(k, v)]"
| "insertFile k v ((k', v') # es) =
     (if fst k' = fst k \<and> nameBefore (snd k) (snd k') then (k, v) # (k', v') # es
      else (k', v') # insertFile k v es)"

definition writeFile :: "dataDir \<times> jsstring \<Rightarrow> fileContent \<Rightarrow> dataFiles \<Rightarrow> dataFiles" where
  "writeFile k v fs = (if mapGet fs k = None then insertFile k v fs else mapSet k v fs)"

definition saveUserData :: "dataFiles \<Rightarrow> jsstring \<Rightarrow> bool \<Rightarrow> userData \<Rightarrow> dataFiles" where
  "saveUserData files uid grp d = writeFile (getUserDataPath uid grp) (Parsed d) files"

text \<open>The preferences module, as far as the functions below read it.\<close>

record prefs =
  aiOn :: bool
  maxConversationLength :: "nat option"

definition emptyParticipant :: participantData where
  "emptyParticipant = \<lparr>partName = None, isAdmin = None, isSuperAdmin = None\<rparr>"

definition existingParticipant :: "(jsstring \<times> participantData) list \<Rightarrow> jsstring \<Rightarrow> participantData" where
  "existingParticipant ps pid = (case mapGet ps pid of Some e \<Rightarrow> e | None \<Rightarrow> emptyParticipant)"

definition messageTextOf :: "message \<Rightarrow> jsstring \<Rightarrow> jsstring" where
  "messageTextOf m d =
     (case messageContent m of
        None \<Rightarrow> []
      | Some c \<Rightarrow> orDefault (orElse (msgConversation c) (msgExtendedText c)) d)"

text \<open>\<open>conversation.slice(-n)\<close>, the last \<open>n\<close> entries.\<close>

definition lastN :: "nat \<Rightarrow> 'a list \<Rightarrow> 'a list" where
  "lastN n xs = drop (length xs - n) xs"

definition bumpTopParticipants :: "jsstring \<Rightarrow> jsstring \<Rightarrow> topParticipant list \<Rightarrow> topParticipant list" where
  "bumpTopParticipants senderId senderName tps =
     (let tps1 =
            (if list_ex (\<lambda>p. tpId p = senderId) tps then
               (let i = length (takeWhile (\<lambda>p. tpId p \<noteq> senderId) tps);
                    p = tps ! i;
                    p1 = p\<lparr>tpMessageCount := tpMessageCount p + 1\<rparr>;
                    p2 = (if senderName \<noteq> [] then p1\<lparr>tpName := senderName\<rparr> else p1)
                in tps[i := p2])
             else tps @ [\<lparr>tpId = senderId, tpName = (if senderName \<noteq> [] then senderName else str ''Unknown User''),
                          tpMessageCount = 1\<rparr>]);
          sorted = sort_key (\<lambda>p. - int (tpMessageCount p)) tps1
      in if 10 < length sorted then take 10 sorted else sorted)"

text \<open>
  \<open>addMessageToConversation\<close>, block by block: the sender and the entry for the
  history; the sender among the participants; the history with its bound; the counter;
  the profile; the most active participants of a group. The record is loaded first and
  saved last.
\<close>

definition senderIdOf :: "jsstring \<Rightarrow> bool \<Rightarrow> message \<Rightarrow> jsstring" where
  "senderIdOf uid grp m =
     (case key m of
        None \<Rightarrow> uid
      | Some k \<Rightarrow>
          if grp \<and> truthy (participant k) then the (participant k)
          else orDefault (remoteJid k) uid)"

definition hasSender :: "message \<Rightarrow> bool \<Rightarrow> bool" where
  "hasSender m fromMe = (\<not> fromMe \<and> key m \<noteq> None)"

definition messageObjOf :: "jsstring \<Rightarrow> bool \<Rightarrow> message \<Rightarrow> bool \<Rightarrow> messageObj" where
  "messageObjOf uid grp m fromMe =
     \<lparr>moId = (case key m of None \<Rightarrow> None | Some k \<Rightarrow> orElse (keyId k) None),
      moText = messageTextOf m (str ''Unknown message format''),
      moFromMe = fromMe,
      moSender = (if hasSender m fromMe
                  then Some (senderIdOf uid grp m, orDefault (pushName m) (str ''Unknown User''))
                  else None),
      moReplyTo = (if \<not> hasSender m fromMe \<and> fromMe \<and> truthy (replyTo m) then replyTo m else None)\<rparr>"

definition withSender :: "jsstring \<Rightarrow> bool \<Rightarrow> message \<Rightarrow> bool \<Rightarrow> userData \<Rightarrow> userData" where
  "withSender uid grp m fromMe d =
     (if hasSender m fromMe then
        (let senderId = senderIdOf uid grp m;
             e = existingParticipant (participants d) senderId
         in d\<lparr>participants :=
                mapSet senderId
                  (e\<lparr>partName := Some (orDefault (orElse (pushName m) (partName e)) (str ''Unknown User''))\<rparr>)
                  (participants d)\<rparr>)
      else d)"

definition withMessage :: "prefs \<Rightarrow> messageObj \<Rightarrow> userData \<Rightarrow> userData" where
  "withMessage pr messageObject d =
     (let maxLen = (case maxConversationLength pr of None \<Rightarrow> 100 | Some n \<Rightarrow> if n = 0 then 100 else n);
          conv = conversation d @ [messageObject]
      in d\<lparr>conversation := (if maxLen < length conv then lastN maxLen conv else conv)\<rparr>)"

definition withCount :: "userData \<Rightarrow> userData" where
  "withCount d = d\<lparr>stats := (stats d)\<lparr>messageCount := messageCount (stats d) + 1\<rparr>\<rparr>"

definition withGroupMetadata :: "groupMeta \<Rightarrow> profile \<Rightarrow> profile" where
  "withGroupMetadata gm p =
     (let pb = (if truthy (subject gm) then p\<lparr>name := subject gm\<rparr> else p);
          pc = (if truthy (desc gm) then pb\<lparr>description := desc gm\<rparr> else pb)
      in (case gmParticipants gm of
            None \<Rightarrow> pc
          | Some ps \<Rightarrow> pc\<lparr>memberCount := Some (length ps)\<rparr>))"

definition withProfile :: "bool \<Rightarrow> message \<Rightarrow> bool \<Rightarrow> userData \<Rightarrow> userData" where
  "withProfile grp m fromMe d =
     (if fromMe then d
      else
        let d4 = (if \<not> grp \<and> truthy (pushName m)
                  then d\<lparr>profile := (profile d)\<lparr>name := pushName m\<rparr>\<rparr> else d)
        in if grp \<and> (case key m of None \<Rightarrow> False | Some k \<Rightarrow> truthy (remoteJid k)) then
             (case groupMetadata m of
                None \<Rightarrow> d4
              | Some gm \<Rightarrow> d4\<lparr>profile := withGroupMetadata gm (profile d4)\<rparr>)
           else d4)"

definition withTopParticipants :: "jsstring \<Rightarrow> bool \<Rightarrow> message \<Rightarrow> bool \<Rightarrow> userData \<Rightarrow> userData" where
  "withTopParticipants uid grp m fromMe d =
     (let senderId = senderIdOf uid grp m;
          senderName = orDefault (pushName m) (str ''Unknown User'')
      in if \<not> fromMe \<and> grp \<and> hasSender m fromMe \<and> senderId \<noteq> [] then
           (let e = existingParticipant (participants d) senderId
            in d\<lparr>participants :=
                   mapSet senderId
                     (e\<lparr>partName := Some (orDefault (orElse (Some senderName) (partName e)) (str ''Unknown User''))\<rparr>)
                     (participants d),
                  stats := (stats d)\<lparr>topParticipants :=
                             bumpTopParticipants senderId senderName (topParticipants (stats d))\<rparr>\<rparr>)
         else d)"

definition addMessageToConversation ::
  "prefs \<Rightarrow> dataFiles \<Rightarrow> jsstring \<Rightarrow> bool \<Rightarrow> message \<Rightarrow> bool \<Rightarrow> dataFiles \<times> userData" where
  "addMessageToConversation pr fs uid grp m fromMe =
     (let userData =
            withTopParticipants uid grp m fromMe
              (withProfile grp m fromMe
                (withCount
                  (withMessage pr (messageObjOf uid grp m fromMe)
                    (withSender uid grp m fromMe (loadUserData fs uid grp)))))
      in (saveUserData fs uid grp userData, userData))"

text \<open>
  \<open>updateUserProfile\<close>. In a patch \<open>None\<close> is an absent key. The callers pass
  \<open>preferences: { language }\<close> or \<open>participants\<close> as additional data, and no other
  key.
\<close>

record profilePatch =
  patchName :: "jsstring option"
  patchDescription :: "jsstring option"
  patchMemberCount :: "nat option"

record additionalData =
  addLanguage :: "jsstring option"
  addParticipants :: "(jsstring \<times> participantData) list option"

definition noPatch :: profilePatch where
  "noPatch = \<lparr>patchName = None, patchDescription = None, patchMemberCount = None\<rparr>"

definition namePatch :: "jsstring \<Rightarrow> profilePatch" where
  "namePatch n = \<lparr>patchName = Some n, patchDescription = None, patchMemberCount = None\<rparr>"

definition noAdditionalData :: additionalData where
  "noAdditionalData = \<lparr>addLanguage = None, addParticipants = None\<rparr>"

definition mergeParticipant ::
  "(jsstring \<times> participantData) list \<Rightarrow> jsstring \<times> participantData \<Rightarrow> (jsstring \<times> participantData) list" where
  "mergeParticipant ps entry =
     (let pid = fst entry; info = snd entry;
          e = existingParticipant ps pid;
          n = orElse (partName info) (partName e)
      in mapSet pid
           \<lparr>partName = (if truthy n then n else None),
            isAdmin = (case isAdmin info of None \<Rightarrow> isAdmin e | Some b \<Rightarrow> Some b),
            isSuperAdmin = (case isSuperAdmin info of None \<Rightarrow> isSuperAdmin e | Some b \<Rightarrow> Some b)\<rparr>
           ps)"

definition updateUserProfile ::
  "dataFiles \<Rightarrow> jsstring \<Rightarrow> bool \<Rightarrow> profilePatch \<Rightarrow> additionalData \<Rightarrow> dataFiles \<times> userData" where
  "updateUserProfile files uid grp profileInfo extra =
     (let d0 = loadUserData files uid grp;
          p0 = profile d0;
          p1 = (case patchName profileInfo of None \<Rightarrow> p0 | Some n \<Rightarrow> p0\<lparr>name := Some n\<rparr>);
          p2 = (case patchDescription profileInfo of None \<Rightarrow> p1 | Some t \<Rightarrow> p1\<lparr>description := Some t\<rparr>);
          p3 = (case patchMemberCount profileInfo of None \<Rightarrow> p2 | Some c \<Rightarrow> p2\<lparr>memberCount := Some c\<rparr>);
          d1 = d0\<lparr>profile := p3\<rparr>;
          d2 = (case addLanguage extra of
                  None \<Rightarrow> d1
                | Some l \<Rightarrow> d1\<lparr>preferences := (preferences d1)\<lparr>language := l\<rparr>\<rparr>);
          d3 = (case addParticipants extra of
                  None \<Rightarrow> d2
                | Some entries \<Rightarrow> d2\<lparr>participants := foldl mergeParticipant (participants d2) entries\<rparr>)
      in (saveUserData files uid grp d3, d3))"

text \<open>
  \<open>detectAndUpdateLanguage\<close>: the character ranges, in the order they are tested.
\<close>

definition isBengali :: "nat \<Rightarrow> bool" where
  "isBengali c = (2432 \<le> c \<and> c \<le> 2559)"

definition isArabic :: "nat \<Rightarrow> bool" where
  "isArabic c = (1536 \<le> c \<and> c \<le> 1791)"

definition isHindi :: "nat \<Rightarrow> bool" where
  "isHindi c = (2304 \<le> c \<and> c \<le> 2431)"

definition detectedLanguage :: "jsstring \<Rightarrow> jsstring" where
  "detectedLanguage messageText =
     (if list_ex isBengali messageText then str ''bn''
      else if list_ex isArabic messageText then str ''ar''
      else if list_ex isHindi messageText then str ''hi''
      else if list_ex isAlpha messageText then str ''en''
      else str ''auto'')"

definition detectAndUpdateLanguage :: "dataFiles \<Rightarrow> jsstring \<Rightarrow> bool \<Rightarrow> jsstring \<Rightarrow> dataFiles \<times> jsstring" where
  "detectAndUpdateLanguage files uid grp messageText =
     (if messageText = [] \<or> trim messageText = [] then (files, str ''auto'')
      else
        let detected = detectedLanguage messageText
        in if detected \<noteq> str ''auto'' then
             (let d = loadUserData files uid grp
              in if language (preferences d) = [] \<or> language (preferences d) = str ''auto''
                 then (fst (updateUserProfile files uid grp noPatch
                              \<lparr>addLanguage = Some detected, addParticipants = None\<rparr>), detected)
                 else (files, detected))
           else (files, detected))"

text \<open>
  \<open>getAllUsers\<close>: the records of the inbox directory, then those of the groups
  directory, each tagged with its directory; a file that does not parse is skipped.
\<close>

datatype userType = Inbox | Group

fun usersOf :: "dataDir \<Rightarrow> userType \<Rightarrow> dataFiles \<Rightarrow> (userType \<times> userData) list" where
  "usersOf dir t [] = []"
| "usersOf dir t (((dir', file), c) # fs) =
     (if dir' = dir \<and> suffix (str ''.json'') file then
        (case c of Parsed d \<Rightarrow> (t, d) # usersOf dir t fs | Unparseable \<Rightarrow> usersOf dir t fs)
      else usersOf dir t fs)"

definition getAllUsers :: "dataFiles \<Rightarrow> (userType \<times> userData) list" where
  "getAllUsers files = usersOf INBOX_DATA_DIR Inbox files @ usersOf GROUP_DATA_DIR Group files"

text \<open>
  \<open>findPhoneNumberByName\<close>. \<open>String.prototype.toLowerCase\<close> belongs to the runtime,
  not to the repository: it is the parameter \<open>lc\<close>. \<open>asciiLower\<close> agrees with it on
  text whose letters are ASCII, and is what the examples use.
\<close>

definition asciiLower :: "jsstring \<Rightarrow> jsstring" where
  "asciiLower s = map (\<lambda>c. if isUpper c then c + 32 else c) s"

definition nameMatches :: "(jsstring \<Rightarrow> jsstring) \<Rightarrow> jsstring \<Rightarrow> jsstring option \<Rightarrow> bool" where
  "nameMatches lc normalizedSearchName n =
     (truthy n \<and>
      (let userName = trim (lc (the n))
       in userName = normalizedSearchName \<or> jsIncludes userName normalizedSearchName
          \<or> jsIncludes normalizedSearchName userName))"

definition groupParticipants :: "(userType \<times> userData) list \<Rightarrow> (jsstring \<times> participantData) list" where
  "groupParticipants allUsers =
     concat (map (\<lambda>u. if fst u = Group then participants (snd u) else []) allUsers)"

definition findPhoneNumberByName ::
  "(jsstring \<Rightarrow> jsstring) \<Rightarrow> (userType \<times> userData) list \<Rightarrow> jsstring \<Rightarrow> jsstring option" where
  "findPhoneNumberByName lc allUsers nm =
     (if nm = [] then None
      else
        let normalizedSearchName = trim (lc nm)
        in (case find (\<lambda>u. fst u = Inbox \<and> nameMatches lc normalizedSearchName (name (profile (snd u)))) allUsers of
              Some u \<Rightarrow> Some (beforeAt (userId (snd u)))
            | None \<Rightarrow>
                (case find (\<lambda>e. nameMatches lc normalizedSearchName (partName (snd e))) (groupParticipants allUsers) of
                   Some e \<Rightarrow> Some (beforeAt (fst e))
                 | None \<Rightarrow> None)))"

text \<open>
  The resolver as the specification words it: the name is lowercased and trimmed, a
  display name is lowercased, and the test is equality or containment either way; direct
  messages first, then the group rosters.
\<close>

definition specNameMatches :: "(jsstring \<Rightarrow> jsstring) \<Rightarrow> jsstring \<Rightarrow> jsstring option \<Rightarrow> bool" where
  "specNameMatches lc normalized n =
     (case n of
        None \<Rightarrow> False
      | Some displayName \<Rightarrow>
          lc displayName = normalized \<or> jsIncludes (lc displayName) normalized
          \<or> jsIncludes normalized (lc displayName))"

definition specResolveName ::
  "(jsstring \<Rightarrow> jsstring) \<Rightarrow> (userType \<times> userData) list \<Rightarrow> jsstring \<Rightarrow> jsstring option" where
  "specResolveName lc allUsers nm =
     (let normalized = trim (lc nm)
      in (case find (\<lambda>u. fst u = Inbox \<and> specNameMatches lc normalized (name (profile (snd u)))) allUsers of
            Some u \<Rightarrow> Some (beforeAt (userId (snd u)))
          | None \<Rightarrow>
              (case find (\<lambda>e. specNameMatches lc normalized (partName (snd e))) (groupParticipants allUsers) of
                 Some e \<Rightarrow> Some (beforeAt (fst e))
               | None \<Rightarrow> None)))"

section \<open>Message handler\<close>

text \<open>
  What the handler gets from outside while it processes one message: the answer of the
  transport's \<open>groupMetadata\<close> call (\<open>None\<close> when the call fails), the reply of the
  text generation (\<open>None\<close> when producing it fails), and the preferences.
\<close>

record env =
  sockGroupMetadata :: "groupMeta option"
  aiReply :: "jsstring option"
  envPrefs :: prefs

record handlerState =
  files :: dataFiles
  processedMessages :: "jsstring list"

definition isGroupMessage :: "message \<Rightarrow> bool" where
  "isGroupMessage m =
     (case key m of
        None \<Rightarrow> False
      | Some k \<Rightarrow> truthy (remoteJid k) \<and> suffix (str ''@g.us'') (the (remoteJid k)))"

definition getGroupName :: "message \<Rightarrow> jsstring option" where
  "getGroupName m =
     (if \<not> isGroupMessage m then None
      else
        (case groupMetadata m of
           None \<Rightarrow> Some (beforeAt (the (remoteJid (the (key m)))))
         | Some gm \<Rightarrow>
             if truthy (subject gm) then subject gm
             else Some (beforeAt (the (remoteJid (the (key m)))))))"

definition participantStep ::
  "message \<Rightarrow> (jsstring \<times> participantData) list \<Rightarrow> gmParticipant \<Rightarrow> (jsstring \<times> participantData) list" where
  "participantStep m participantsData p =
     (if truthy (gpId p) then
        (let pid = the (gpId p);
             existingName = (case mapGet participantsData pid of
                               None \<Rightarrow> None
                             | Some e \<Rightarrow> if truthy (partName e) then partName e else None);
             fromSender = (case key m of None \<Rightarrow> False | Some k \<Rightarrow> participant k = gpId p) \<and> truthy (pushName m);
             n = orElse existingName (gpName p)
         in mapSet pid
              \<lparr>partName = (if fromSender then pushName m else if truthy n then n else None),
               isAdmin = Some (gpIsAdmin p),
               isSuperAdmin = Some (gpIsSuperAdmin p)\<rparr>
              participantsData)
      else participantsData)"

text \<open>
  The group part of \<open>processMessage\<close>: the files after it and the group name it found.
\<close>

definition updateGroupInfo :: "env \<Rightarrow> dataFiles \<Rightarrow> message \<Rightarrow> jsstring \<Rightarrow> dataFiles \<times> jsstring option" where
  "updateGroupInfo e fs m jid =
     (let existingData = loadUserData fs jid True;
          fromExisting =
            (case sockGroupMetadata e of
               None \<Rightarrow> if truthy (name (profile existingData)) then name (profile existingData) else None
             | Some gm \<Rightarrow> None);
          groupName =
            (case sockGroupMetadata e of
               None \<Rightarrow> if \<not> truthy fromExisting then getGroupName m else fromExisting
             | Some gm \<Rightarrow>
                 if truthy (subject gm) then subject gm
                 else if \<not> truthy fromExisting then getGroupName m else fromExisting)
      in if truthy groupName \<and> groupName \<noteq> Some (str ''Unknown Group'') then
           (case sockGroupMetadata e of
              None \<Rightarrow> (fst (updateUserProfile fs jid True (namePatch (the groupName)) noAdditionalData), groupName)
            | Some gm \<Rightarrow>
                (let patch0 = \<lparr>patchName = groupName,
                               patchDescription = (if truthy (desc gm) then desc gm else None),
                               patchMemberCount = None\<rparr>
                 in (case gmParticipants gm of
                       None \<Rightarrow> (fst (updateUserProfile fs jid True patch0 noAdditionalData), groupName)
                     | Some ps \<Rightarrow>
                         (fst (updateUserProfile fs jid True
                                 (patch0\<lparr>patchMemberCount := Some (length ps)\<rparr>)
                                 \<lparr>addLanguage = None,
                                  addParticipants =
                                    Some (foldl (participantStep m) (participants existingData) ps)\<rparr>),
                          groupName))))
         else (fs, groupName))"

text \<open>
  \<open>sendAutoReply\<close>, as far as it changes the stored records. The reply it stores has
  an identifier taken from the clock.
\<close>

definition sendAutoReply :: "env \<Rightarrow> dataFiles \<Rightarrow> message \<Rightarrow> dataFiles" where
  "sendAutoReply e fs m =
     (case key m of
        None \<Rightarrow> fs
      | Some k \<Rightarrow>
          if \<not> truthy (remoteJid k) then fs
          else
            (let jid = the (remoteJid k);
                 grp = isGroupMessage m;
                 messageText = messageTextOf m []
             in if aiOn (envPrefs e) \<and> messageText \<noteq> [] then
                  (let userData = loadUserData fs jid grp;
                       fs1 = fst (addMessageToConversation (envPrefs e) fs jid grp m False);
                       fs2 = (if truthy (pushName m) \<and> \<not> truthy (name (profile userData))
                              then fst (updateUserProfile fs1 jid grp (namePatch (the (pushName m))) noAdditionalData)
                              else fs1);
                       fs3 = fst (detectAndUpdateLanguage fs2 jid grp messageText)
                   in (case aiReply e of
                         None \<Rightarrow> fs3
                       | Some replyText \<Rightarrow>
                           fst (addMessageToConversation (envPrefs e) fs3 jid grp
                                  \<lparr>key = Some \<lparr>remoteJid = None, participant = None, keyId = None\<rparr>,
                                   pushName = None,
                                   messageContent = Some \<lparr>msgConversation = Some replyText, msgExtendedText = None\<rparr>,
                                   groupMetadata = None,
                                   replyTo = orElse (participant k) (remoteJid k)\<rparr>
                                  True)))
                else fs))"

text \<open>
  \<open>processMessage\<close>, as far as it changes the stored records and the set of processed
  identifiers. A message without a key, or a direct message that has a push name and no
  address, raises a \<open>TypeError\<close>. Handling mentions sends messages and stores nothing.
\<close>

definition processMessage :: "env \<Rightarrow> handlerState \<Rightarrow> message \<Rightarrow> error + handlerState" where
  "processMessage e st m =
     (case key m of
        None \<Rightarrow> Inl TypeError
      | Some k \<Rightarrow>
          (let grp = isGroupMessage m;
               fs1 = (if grp then fst (updateGroupInfo e (files st) m (the (remoteJid k))) else files st);
               messageText = messageTextOf m [];
               mentionedNumbers = (if grp \<and> messageText \<noteq> [] then extractMentionedNumbers messageText else []);
               mentionedNames = (if grp \<and> messageText \<noteq> [] then extractMentionedNames messageText else [])
           in if truthy (pushName m) \<and> \<not> grp \<and> remoteJid k = None then Inl TypeError
              else
                (let fs2 = (if truthy (pushName m) \<and> \<not> grp
                            then fst (updateUserProfile fs1 (the (remoteJid k)) False
                                        (namePatch (the (pushName m))) noAdditionalData)
                            else fs1)
                 in if truthy (keyId k) \<and> the (keyId k) \<notin> set (processedMessages st) then
                      (let seen = processedMessages st @ [the (keyId k)];
                           seen' = (if 1000 < length seen then lastN 500 seen else seen)
                       in Inr \<lparr>files = (if mentionedNumbers \<noteq> [] \<or> mentionedNames \<noteq> [] then fs2
                                         else sendAutoReply e fs2 m),
                               processedMessages = seen'\<rparr>)
                    else Inr \<lparr>files = fs2, processedMessages = processedMessages st\<rparr>)))"

section \<open>Relay intent and the composed message\<close>

definition englishPatterns :: "jsstring list" where
  "englishPatterns =
     map str [''tell'', ''say to'', ''inform'', ''let know'', ''message'', ''ask'', ''tell him'',
              ''tell her'', ''please tell'', ''can you tell'', ''would you tell'', ''could you tell'']"

text \<open>The Bengali markers, in Bengali script (as code units) and transliterated.\<close>

definition bengaliPatterns :: "jsstring list" where
  "bengaliPatterns =
     [[2476, 2482, 2507], [2476, 2482], [2460, 2494, 2472, 2494, 2451], [2476, 2482, 2468, 2503],
      [2476, 2482, 2476, 2503], [2460, 2494, 2472, 2494, 2476, 2503],
      [2460, 2495, 2460, 2509, 2462, 2494, 2488, 2494], [2460, 2495, 2460, 2509, 2462, 2503, 2488]]
     @ map str [''bolo'', ''bol'', ''janao'', ''bolte'', ''bolbe'', ''janabe'', ''jiggasa'', ''jigges'']"

definition checkIfTellSomeoneMessage :: "(jsstring \<Rightarrow> jsstring) \<Rightarrow> jsstring \<Rightarrow> jsstring \<Rightarrow> bool" where
  "checkIfTellSomeoneMessage lc originalMessage cleanedMessage =
     (if originalMessage = [] \<or> cleanedMessage = [] then False
      else
        let lowerOriginal = lc originalMessage;
            hasEnglishPattern = list_ex (\<lambda>pattern. jsIncludes lowerOriginal pattern) englishPatterns;
            hasBengaliPattern = list_ex (\<lambda>pattern. jsIncludes lowerOriginal pattern) bengaliPatterns
        in hasEnglishPattern \<or> hasBengaliPattern)"

text \<open>
  \<open>handleMentions\<close> strips the mentions and computes the flag from the raw and the
  stripped text; the flag picks one of two templates for the message that is sent.
\<close>

definition relayIntent :: "(jsstring \<Rightarrow> jsstring) \<Rightarrow> jsstring \<Rightarrow> jsstring list \<Rightarrow> jsstring list \<Rightarrow> bool" where
  "relayIntent lc messageText mentionedNames mentionedNumbers =
     checkIfTellSomeoneMessage lc messageText
       (extractActualMessage messageText mentionedNames mentionedNumbers)"

definition relayFraming :: jsstring where
  "relayFraming =
     [32, 2438, 2474, 2472, 2494, 2453, 2503, 32, 2447, 2439, 32, 2476, 2494, 2480, 2509, 2468, 2494,
      32, 2474, 2494, 2464, 2494, 2468, 2503, 32, 2476, 2482, 2503, 2459, 2503, 58, 10, 10, 34]"

definition plainFraming :: jsstring where
  "plainFraming = [32, 2438, 2474, 2472, 2494, 2453, 2503, 32, 2476, 2482, 2503, 2459, 2503, 58, 10, 10, 34]"

definition personalizedMessage :: "bool \<Rightarrow> jsstring \<Rightarrow> jsstring \<Rightarrow> jsstring \<Rightarrow> jsstring" where
  "personalizedMessage isTellSomeoneMessage bengaliGroupName bengaliSenderName enhancedMessage =
     (if isTellSomeoneMessage
      then bengaliGroupName @ [32, 2469, 2503, 2453, 2503, 32] @ bengaliSenderName @ relayFraming
           @ enhancedMessage @ [34]
      else bengaliGroupName @ [32, 2469, 2503, 2453, 2503, 32] @ bengaliSenderName @ plainFraming
           @ enhancedMessage @ [34])"

section \<open>Well-formed states and example data\<close>

text \<open>
  The queue of the first store lists the keys of its map in order, once each. The new
  store is so, and \<open>add\<close> of an identifier that is not cached and \<open>remove\<close> keep it so.
\<close>

definition consistent :: "store \<Rightarrow> bool" where
  "consistent s = (map fst (messages s) = messageQueue s \<and> distinct (messageQueue s))"

definition noIdMessage :: message where
  "noIdMessage =
     \<lparr>key = Some \<lparr>remoteJid = Some (str ''8801700000000@s.whatsapp.net''), participant = None,
                   keyId = None\<rparr>,
      pushName = None,
      messageContent = Some \<lparr>msgConversation = Some (str ''hi''), msgExtendedText = None\<rparr>,
      groupMetadata = None, replyTo = None\<rparr>"

text \<open>Both stores with capacity 2, after \<open>add(A)\<close> and \<open>add(B)\<close>.\<close>

definition storeAB :: store where
  "storeAB =
     fst (add (fst (add (newStore (Some 2)) (Some (mkMessage ''A'' ''first''))))
            (Some (mkMessage ''B'' ''second'')))"

definition coreStoreAB :: coreStore where
  "coreStoreAB =
     fst (coreAdd (fst (coreAdd (newCoreStore (Some 2)) (Some (mkMessage ''A'' ''first''))))
            (Some (mkMessage ''B'' ''second'')))"

text \<open>
  A group whose subject is the text \<open>Unknown Group\<close>, and the first message in it, sent
  by a participant whose push name is \<open>Alice\<close>.
\<close>

definition groupJid :: jsstring where
  "groupJid = str ''120363041234567890@g.us''"

definition aliceJid :: jsstring where
  "aliceJid = str ''8801711111111@s.whatsapp.net''"

definition unknownGroupEnv :: env where
  "unknownGroupEnv =
     \<lparr>sockGroupMetadata =
        Some \<lparr>subject = Some (str ''Unknown Group''), desc = None,
              gmParticipants =
                Some [\<lparr>gpId = Some aliceJid, gpName = None, gpIsAdmin = False, gpIsSuperAdmin = False\<rparr>]\<rparr>,
      aiReply = Some (str ''Hi Alice''),
      envPrefs = \<lparr>aiOn = True, maxConversationLength = Some 100\<rparr>\<rparr>"

definition aliceGroupMessage :: message where
  "aliceGroupMessage =
     \<lparr>key = Some \<lparr>remoteJid = Some groupJid, participant = Some aliceJid, keyId = Some (str ''M1'')\<rparr>,
      pushName = Some (str ''Alice''),
      messageContent = Some \<lparr>msgConversation = Some (str ''hello''), msgExtendedText = None\<rparr>,
      groupMetadata = None, replyTo = None\<rparr>"

text \<open>
  The stored records of the resolver example: a group with the participant
  \<open>Karim Uddin\<close>, and a direct conversation with \<open>Karim\<close>.
\<close>

definition karimFiles :: dataFiles where
  "karimFiles =
     [((GROUP_DATA_DIR, str ''120363041234567890_g_us.json''),
       Parsed ((defaultUserData groupJid True)
         \<lparr>participants :=
            [(str ''8801822222222@s.whatsapp.net'',
              \<lparr>partName = Some (str ''Karim Uddin''), isAdmin = Some False, isSuperAdmin = Some False\<rparr>)]\<rparr>)),
      ((INBOX_DATA_DIR, str ''8801711111111_s_whatsapp_net.json''),
       Parsed ((defaultUserData aliceJid False)
         \<lparr>profile := \<lparr>name = Some (str ''Karim''), description = None, memberCount = None\<rparr>\<rparr>))]"

text \<open>The match tests of the resolver, named for the statements about it.\<close>

definition dmMatch :: "(jsstring \<Rightarrow> jsstring) \<Rightarrow> jsstring \<Rightarrow> userType \<times> userData \<Rightarrow> bool" where
  "dmMatch lc nm u = (fst u = Inbox \<and> nameMatches lc (trim (lc nm)) (name (profile (snd u))))"

definition partMatch :: "(jsstring \<Rightarrow> jsstring) \<Rightarrow> jsstring \<Rightarrow> jsstring \<times> participantData \<Rightarrow> bool" where
  "partMatch lc nm e = nameMatches lc (trim (lc nm)) (partName (snd e))"

text \<open>
  In a text, every \<open>@\<close> is followed by a character with the property \<open>P\<close> or stands at
  the end.
\<close>

fun atsFollowedBy :: "(nat \<Rightarrow> bool) \<Rightarrow> jsstring \<Rightarrow> bool" where
  "atsFollowedBy P [] = True"
| "atsFollowedBy P [c] = True"
| "atsFollowedBy P (c # d # r) = ((c = 64 \<longrightarrow> P d) \<and> atsFollowedBy P (d # r))"

text \<open>An uppercase letter followed by one or more lowercase letters.\<close>

definition capitalised :: "jsstring \<Rightarrow> bool" where
  "capitalised w = (case w of [] \<Rightarrow> False | c # r \<Rightarrow> isUpper c \<and> r \<noteq> [] \<and> list_all isLower r)"

text \<open>A run of white space, of one character or more.\<close>

definition spaceRun :: "jsstring \<Rightarrow> bool" where
  "spaceRun ws = (ws \<noteq> [] \<and> list_all isSpace ws)"

text \<open>
  The text goes on with white space and then an uppercase letter followed by lowercase
  letters.
\<close>

definition followedByCap :: "jsstring \<Rightarrow> bool" where
  "followedByCap s = (\<exists>ws w r. s = ws @ w @ r \<and> spaceRun ws \<and> capitalised w)"

text \<open>
  At the \<open>@\<close> in position \<open>i\<close>: the run of characters behind it up to the next white
  space or punctuation mark, the text behind that run, and the test that the position
  gives a name (no letter or digit right before the \<open>@\<close>, no digit in the run, at least
  two characters).
\<close>

definition firstWordAt :: "jsstring \<Rightarrow> nat \<Rightarrow> jsstring" where
  "firstWordAt t i = takeWhile notStop (drop (i + 1) t)"

definition restAt :: "jsstring \<Rightarrow> nat \<Rightarrow> jsstring" where
  "restAt t i = dropWhile notStop (drop (i + 1) t)"

definition validAt :: "jsstring \<Rightarrow> nat \<Rightarrow> bool" where
  "validAt t i =
     (\<not> (0 < i \<and> isAlnum (t ! (i - 1)))
      \<and> \<not> list_ex isDigit (firstWordAt t i) \<and> 2 \<le> length (firstWordAt t i))"

text \<open>
  A stored direct conversation whose language preference is not set (an empty
  \<open>language\<close>).
\<close>

definition unsetLanguageFiles :: dataFiles where
  "unsetLanguageFiles =
     [((INBOX_DATA_DIR, str ''8801711111111_s_whatsapp_net.json''),
       Parsed ((defaultUserData aliceJid False)
         \<lparr>preferences := \<lparr>language = [], aiEnabled = True, notifyOnMention = True\<rparr>\<rparr>))]"

section \<open>Properties of the message stores\<close>

lemma str_Nil: "str [] = []"
  by (simp add: str_def)

lemma str_Cons: "str (c # cs) = of_char c # str cs"
  by (simp add: str_def)

lemmas strs = str_Nil str_Cons

lemmas cls = isSpace_def isDigit_def isUpper_def isLower_def isAlpha_def isAlnum_def isWord_def
  notSpace_def isStop_def notStop_def

lemmas extract_defs = extractMentionedNumbers_def matchNumberAt_def wordNumber_def validNumber_def
  extractMentionedNames_def atSymbolPositions_def nameAt_def matchNameTail_def capWord_def
  matchUnderscoreAt_def pushNew_def extractActualMessage_def wordBoundary_def trim_def

lemma mapSet_fresh: "k \<notin> fst ` set es \<Longrightarrow> mapSet k v es = es @ [(k, v)]"
  by (induction es) auto

lemma mapSet_present_keys: "k \<in> fst ` set es \<Longrightarrow> map fst (mapSet k v es) = map fst es"
  by (induction es) force+

lemma mapGet_mapSet: "mapGet (mapSet k v es) j = (if j = k then Some v else mapGet es j)"
  by (induction es) (auto simp: mapGet_def)

lemma mapDelete_hd:
  "distinct (map fst es) \<Longrightarrow> es \<noteq> [] \<Longrightarrow> mapDelete (fst (hd es)) es = tl es"
  by (cases es) (auto simp: mapDelete_def filter_id_conv rev_image_eqI)

lemma mapGet_tl:
  assumes "distinct (map fst es)" and "es \<noteq> []"
  shows "mapGet (tl es) j = (if j = fst (hd es) then None else mapGet es j)"
proof -
  from assms(2) obtain a b rest where es: "es = (a, b) # rest" by (cases es) auto
  from assms(1) have "a \<notin> fst ` set rest" by (simp add: es)
  then have "map_of rest a = None" by (simp add: map_of_eq_None_iff)
  then show ?thesis by (simp add: es mapGet_def)
qed

lemma storeAB_eq:
  "storeAB = \<lparr>maxSize = 2,
              messages = [(str ''A'', mkMessage ''A'' ''first''), (str ''B'', mkMessage ''B'' ''second'')],
              messageQueue = [str ''A'', str ''B'']\<rparr>"
  by (simp add: storeAB_def add_def newStore_def evictOldest_def mkMessage_def str_Cons str_Nil Let_def)

lemma coreStoreAB_eq:
  "coreStoreAB = \<lparr>coreMaxSize = 2,
                  coreMessages = [(Some (str ''A''), mkMessage ''A'' ''first''),
                                  (Some (str ''B''), mkMessage ''B'' ''second'')]\<rparr>"
  by (simp add: coreStoreAB_def coreAdd_def newCoreStore_def mkMessage_def str_Cons str_Nil Let_def)

lemma evictOldest_consistent:
  assumes c: "consistent s"
  shows "evictOldest s =
           (if maxSize s \<le> storeSize s
            then s\<lparr>messages := tl (messages s), messageQueue := tl (messageQueue s)\<rparr> else s)"
proof (cases "messages s")
  case Nil
  with c show ?thesis by (simp add: evictOldest_def consistent_def storeSize_def)
next
  case (Cons e es)
  from c have q: "messageQueue s = map fst (messages s)" and d: "distinct (map fst (messages s))"
    by (simp_all add: consistent_def)
  have "mapDelete (fst e) (messages s) = es"
    using mapDelete_hd[OF d] Cons by simp
  then show ?thesis
    by (simp add: evictOldest_def q Cons storeSize_def)
qed

lemma add_fresh:
  assumes km: "key msg = Some k" and ki: "keyId k = Some i" and ne: "i \<noteq> []"
    and c: "consistent s" and f: "i \<notin> set (messageQueue s)"
  shows "add s (Some msg) =
           (s\<lparr>messages := (if maxSize s \<le> storeSize s then tl (messages s) else messages s) @ [(i, msg)],
              messageQueue := (if maxSize s \<le> storeSize s then tl (messageQueue s) else messageQueue s) @ [i]\<rparr>,
            Inr i)"
proof -
  from c have q: "messageQueue s = map fst (messages s)"
    by (simp add: consistent_def)
  have fr: "i \<notin> fst ` set (messages s)" using f by (simp add: q)
  have fr': "i \<notin> fst ` set (tl (messages s))"
    using fr by (cases "messages s") auto
  show ?thesis
    by (simp add: add_def km ki ne evictOldest_consistent[OF c] Let_def
        mapSet_fresh[OF fr] mapSet_fresh[OF fr'])
qed

lemma newStore_consistent: "consistent (newStore opt)"
  by (simp add: consistent_def newStore_def)

lemma add_fresh_consistent:
  assumes "key msg = Some k" and "keyId k = Some i" and "i \<noteq> []"
    and c: "consistent s" and f: "i \<notin> set (messageQueue s)"
  shows "consistent (fst (add s (Some msg)))"
proof -
  from c have q: "messageQueue s = map fst (messages s)" and d: "distinct (messageQueue s)"
    by (simp_all add: consistent_def)
  have "distinct (tl (messageQueue s))" using d by (rule distinct_tl)
  moreover have "i \<notin> set (tl (messageQueue s))"
    using f by (cases "messageQueue s") auto
  ultimately show ?thesis
    using d f by (simp add: add_fresh[OF assms] consistent_def q map_tl)
qed

lemma remove_consistent:
  assumes c: "consistent s"
  shows "consistent (fst (remove s j))"
proof -
  from c have q: "messageQueue s = map fst (messages s)" and d: "distinct (map fst (messages s))"
    by (simp_all add: consistent_def)
  have "map fst (mapDelete j es) = remove1 j (map fst es)" if "distinct (map fst es)" for es :: "(jsstring \<times> message) list"
    using that
  proof (induction es)
    case Nil
    then show ?case by (simp add: mapDelete_def)
  next
    case (Cons e es)
    then have "fst e \<notin> fst ` set es" by simp
    then have "filter (\<lambda>x. fst x \<noteq> fst e) es = es"
      by (auto simp: filter_id_conv rev_image_eqI)
    with Cons show ?case by (simp add: mapDelete_def)
  qed
  from this[OF d] show ?thesis
    using d by (simp add: remove_def consistent_def q)
qed

lemma add_fresh_get:
  assumes km: "key msg = Some k" and ki: "keyId k = Some i" and ne: "i \<noteq> []"
    and c: "consistent s" and f: "i \<notin> set (messageQueue s)"
  shows "get (fst (add s (Some msg))) j =
           (if j = i then Some msg
            else if maxSize s \<le> storeSize s \<and> messageQueue s \<noteq> [] \<and> j = hd (messageQueue s) then None
            else get s j)"
proof -
  from c have q: "messageQueue s = map fst (messages s)" and d: "distinct (map fst (messages s))"
    by (simp_all add: consistent_def)
  have fr: "i \<notin> fst ` set (messages s)" using f by (simp add: q)
  have fr': "i \<notin> fst ` set (tl (messages s))"
    using fr by (cases "messages s") auto
  have app: "mapGet (es @ [(i, msg)]) j = (if j = i then Some msg else mapGet es j)"
    if "i \<notin> fst ` set es" for es
    using mapGet_mapSet[of i msg es j] mapSet_fresh[OF that, of msg] by simp
  show ?thesis
  proof (cases "maxSize s \<le> storeSize s")
    case False
    then show ?thesis by (simp add: add_fresh[OF assms] get_def app[OF fr])
  next
    case True
    show ?thesis
    proof (cases "messages s")
      case Nil
      then show ?thesis using True by (simp add: add_fresh[OF assms] get_def q mapGet_def)
    next
      case (Cons e es)
      then have "messages s \<noteq> []" by simp
      from mapGet_tl[OF d this] have t: "mapGet (tl (messages s)) j = (if j = fst e then None else mapGet (messages s) j)"
        by (simp add: Cons)
      have "get (fst (add s (Some msg))) j = (if j = i then Some msg else mapGet (tl (messages s)) j)"
        using True by (simp add: add_fresh[OF assms] get_def app[OF fr'])
      also have "\<dots> = (if j = i then Some msg else if j = fst e then None else get s j)"
        by (simp add: t get_def)
      finally show ?thesis using True by (simp add: q Cons)
    qed
  qed
qed

lemma coreAdd_fresh:
  assumes km: "key msg = Some k"
    and d: "distinct (map fst (coreMessages c))" and f: "keyId k \<notin> fst ` set (coreMessages c)"
    and pos: "0 < coreMaxSize c"
  shows "coreAdd c (Some msg) =
           (c\<lparr>coreMessages := (if coreMaxSize c \<le> coreSize c then tl (coreMessages c) else coreMessages c)
                                @ [(keyId k, msg)]\<rparr>,
            Inr (keyId k))"
proof (cases "coreMessages c")
  case Nil
  with pos show ?thesis by (simp add: coreAdd_def km Let_def coreSize_def)
next
  case (Cons e es)
  obtain a b where e: "e = (a, b)" by (cases e)
  have ne: "a \<noteq> keyId k" and fr: "keyId k \<notin> fst ` set es"
    using f by (auto simp: Cons e)
  have "distinct (map fst (e # es @ [(keyId k, msg)]))"
    using d f by (auto simp: Cons)
  from mapDelete_hd[OF this] have del: "mapDelete a ((a, b) # es @ [(keyId k, msg)]) = es @ [(keyId k, msg)]"
    by (simp add: e)
  show ?thesis
    by (simp add: coreAdd_def km Let_def coreSize_def Cons e ne mapSet_fresh[OF fr] del)
qed

text \<open>
  In the second store, adding a message whose identifier is cached replaces the message
  in place: the keys and the size stay, and every other entry is still there.
\<close>

lemma coreAdd_cached:
  assumes km: "key msg = Some k" and pr: "keyId k \<in> fst ` set (coreMessages c)"
    and cap: "coreSize c \<le> coreMaxSize c"
  shows "map fst (coreMessages (fst (coreAdd c (Some msg)))) = map fst (coreMessages c)"
    and "coreSize (fst (coreAdd c (Some msg))) = coreSize c"
    and "j \<noteq> keyId k \<Longrightarrow> coreGet (fst (coreAdd c (Some msg))) j = coreGet c j"
proof -
  have len: "length (mapSet (keyId k) msg (coreMessages c)) = length (coreMessages c)"
    using mapSet_present_keys[OF pr, of msg] by (metis length_map)
  then have eq: "coreMessages (fst (coreAdd c (Some msg))) = mapSet (keyId k) msg (coreMessages c)"
    using cap by (simp add: coreAdd_def km Let_def coreSize_def)
  show "map fst (coreMessages (fst (coreAdd c (Some msg)))) = map fst (coreMessages c)"
    by (simp add: eq mapSet_present_keys[OF pr])
  show "coreSize (fst (coreAdd c (Some msg))) = coreSize c"
    by (simp add: coreSize_def eq len)
  show "j \<noteq> keyId k \<Longrightarrow> coreGet (fst (coreAdd c (Some msg))) j = coreGet c j"
    by (simp add: coreGet_def eq mapGet_mapSet)
qed

text \<open>The second store signals no error for any message that has a key.\<close>

lemma coreAdd_no_error: "key msg = Some k \<Longrightarrow> snd (coreAdd c (Some msg)) = Inr (keyId k)"
  by (simp add: coreAdd_def Let_def)

text \<open>The first store rejects a message without an identifier and stays as it was.\<close>

lemma add_missing_id:
  assumes "m = None \<or> (\<exists>msg. m = Some msg \<and> (key msg = None \<or> (\<exists>k. key msg = Some k \<and> \<not> truthy (keyId k))))"
  shows "add s m = (s, Inl InvalidMessage)"
  using assms by (auto simp: add_def)

text \<open>
  C7 (amended). In both stores, adding a message whose identifier is not cached (to a
  store whose queue matches its map, for the first store) evicts the oldest entry exactly
  when the store is full, keeps every other entry and puts the new one last; what a
  lookup returns afterwards does not depend on earlier lookups, which leave the store as
  it is.
\<close>

theorem add_fresh_evicts_oldest:
  assumes "key msg = Some k" and "keyId k = Some i" and "i \<noteq> []"
    and "consistent s" and "i \<notin> set (messageQueue s)"
    and "distinct (map fst (coreMessages c))" and "Some i \<notin> fst ` set (coreMessages c)"
    and "0 < coreMaxSize c"
  shows "add s (Some msg) =
           (s\<lparr>messages := (if maxSize s \<le> storeSize s then tl (messages s) else messages s) @ [(i, msg)],
              messageQueue := (if maxSize s \<le> storeSize s then tl (messageQueue s) else messageQueue s) @ [i]\<rparr>,
            Inr i)
         \<and> get (fst (add s (Some msg))) j =
             (if j = i then Some msg
              else if maxSize s \<le> storeSize s \<and> messageQueue s \<noteq> [] \<and> j = hd (messageQueue s) then None
              else get s j)
         \<and> coreAdd c (Some msg) =
             (c\<lparr>coreMessages := (if coreMaxSize c \<le> coreSize c then tl (coreMessages c) else coreMessages c)
                                  @ [(Some i, msg)]\<rparr>,
              Inr (Some i))"
proof -
  have f: "keyId k \<notin> fst ` set (coreMessages c)" using assms(2,7) by simp
  show ?thesis
    using add_fresh[OF assms(1-5)] add_fresh_get[OF assms(1-5), of j]
      coreAdd_fresh[OF assms(1,6) f assms(8)] assms(2)
    by simp
qed

theorem add_fresh_evicts_oldest_witness:
  "get (fst (add storeAB (Some (mkMessage ''C'' ''third'')))) (str ''A'') = None
   \<and> get (fst (add storeAB (Some (mkMessage ''C'' ''third'')))) (str ''B'') = Some (mkMessage ''B'' ''second'')
   \<and> get (fst (add storeAB (Some (mkMessage ''C'' ''third'')))) (str ''C'') = Some (mkMessage ''C'' ''third'')
   \<and> coreGet (fst (coreAdd coreStoreAB (Some (mkMessage ''C'' ''third'')))) (Some (str ''A'')) = None
   \<and> coreGet (fst (coreAdd coreStoreAB (Some (mkMessage ''C'' ''third'')))) (Some (str ''B''))
       = Some (mkMessage ''B'' ''second'')
   \<and> coreGet (fst (coreAdd coreStoreAB (Some (mkMessage ''C'' ''third'')))) (Some (str ''C''))
       = Some (mkMessage ''C'' ''third'')"
proof -
  let ?k = "\<lparr>remoteJid = None, participant = None, keyId = Some (str ''C'')\<rparr>"
  have 1: "key (mkMessage ''C'' ''third'') = Some ?k" by (simp add: mkMessage_def)
  have 2: "keyId ?k = Some (str ''C'')" by simp
  have 3: "str ''C'' \<noteq> []" by (simp add: str_Cons)
  have 4: "consistent storeAB" by (simp add: storeAB_eq consistent_def str_Cons str_Nil)
  have 5: "str ''C'' \<notin> set (messageQueue storeAB)" by (simp add: storeAB_eq str_Cons str_Nil)
  have 6: "distinct (map fst (coreMessages coreStoreAB))" by (simp add: coreStoreAB_eq str_Cons str_Nil)
  have 7: "Some (str ''C'') \<notin> fst ` set (coreMessages coreStoreAB)"
    by (simp add: coreStoreAB_eq str_Cons str_Nil)
  have 8: "0 < coreMaxSize coreStoreAB" by (simp add: coreStoreAB_eq)
  note t = add_fresh_evicts_oldest[OF 1 2 3 4 5 6 7 8]
  have full: "maxSize storeAB \<le> storeSize storeAB" "messageQueue storeAB \<noteq> []"
    "hd (messageQueue storeAB) = str ''A''"
    by (simp_all add: storeAB_eq storeSize_def)
  have ne: "str ''A'' \<noteq> str ''C''" "str ''B'' \<noteq> str ''C''" "str ''B'' \<noteq> str ''A''"
    by (simp_all add: str_Cons str_Nil)
  have gB: "get storeAB (str ''B'') = Some (mkMessage ''B'' ''second'')"
    by (simp add: storeAB_eq get_def mapGet_def str_Cons str_Nil)
  have rA: "get (fst (add storeAB (Some (mkMessage ''C'' ''third'')))) (str ''A'') = None"
    using t[of "str ''A''", THEN conjunct2, THEN conjunct1] full ne by simp
  have rB: "get (fst (add storeAB (Some (mkMessage ''C'' ''third'')))) (str ''B'') = Some (mkMessage ''B'' ''second'')"
    using t[of "str ''B''", THEN conjunct2, THEN conjunct1] full ne gB by simp
  have rC: "get (fst (add storeAB (Some (mkMessage ''C'' ''third'')))) (str ''C'') = Some (mkMessage ''C'' ''third'')"
    using t[of "str ''C''", THEN conjunct2, THEN conjunct1] by simp
  have "coreMaxSize coreStoreAB \<le> coreSize coreStoreAB"
    by (simp add: coreStoreAB_eq coreSize_def)
  with t[of "[]", THEN conjunct2, THEN conjunct2] have c: "coreMessages (fst (coreAdd coreStoreAB (Some (mkMessage ''C'' ''third'')))) =
             tl (coreMessages coreStoreAB) @ [(Some (str ''C''), mkMessage ''C'' ''third'')]"
    by simp
  have cs: "coreGet (fst (coreAdd coreStoreAB (Some (mkMessage ''C'' ''third'')))) (Some (str ''A'')) = None"
    "coreGet (fst (coreAdd coreStoreAB (Some (mkMessage ''C'' ''third'')))) (Some (str ''B''))
       = Some (mkMessage ''B'' ''second'')"
    "coreGet (fst (coreAdd coreStoreAB (Some (mkMessage ''C'' ''third'')))) (Some (str ''C''))
       = Some (mkMessage ''C'' ''third'')"
    unfolding coreGet_def c by (simp_all add: coreStoreAB_eq mapGet_def str_Cons str_Nil)
  show ?thesis
    using rA rB rC cs by simp
qed

text \<open>
  C7 as stated fails in the second store: it is full (two entries, capacity 2), a message
  with the cached identifier \<open>B\<close> is added, and the oldest entry \<open>A\<close> is still there.
\<close>

theorem coreAdd_cached_at_capacity_keeps_oldest:
  "coreSize coreStoreAB = coreMaxSize coreStoreAB
   \<and> coreGet (fst (coreAdd coreStoreAB (Some (mkMessage ''B'' ''again'')))) (Some (str ''A''))
       = Some (mkMessage ''A'' ''first'')"
  by (simp add: coreStoreAB_eq coreSize_def coreAdd_def coreGet_def mapGet_def mkMessage_def
      str_Cons str_Nil Let_def)

text \<open>
  C8. The second store does not check the identifier: a message that has a key and no
  identifier is stored under the key \<open>undefined\<close>, and the call returns instead of
  signalling an error.
\<close>

theorem coreAdd_without_id_is_stored:
  "coreAdd (newCoreStore (Some 2)) (Some noIdMessage) =
     (\<lparr>coreMaxSize = 2, coreMessages = [(None, noIdMessage)]\<rparr>, Inr None)"
  by (simp add: coreAdd_def newCoreStore_def noIdMessage_def Let_def)

text \<open>
  C10. The first store, full with \<open>A\<close> and \<open>B\<close>: adding \<open>B\<close> again evicts \<open>A\<close>, and
  leaves the identifier \<open>B\<close> twice in the queue.
\<close>

theorem add_cached_id_evicts_other:
  "get storeAB (str ''A'') = Some (mkMessage ''A'' ''first'')
   \<and> get storeAB (str ''B'') = Some (mkMessage ''B'' ''second'')
   \<and> get (fst (add storeAB (Some (mkMessage ''B'' ''second'')))) (str ''A'') = None
   \<and> messageQueue (fst (add storeAB (Some (mkMessage ''B'' ''second'')))) = [str ''B'', str ''B'']"
  by (simp add: storeAB_eq add_def evictOldest_def get_def mapGet_def mapDelete_def mkMessage_def
      str_Cons str_Nil Let_def)

section \<open>Properties of the user data service\<close>

lemma isAlnum_underscore: "\<not> isAlnum 95"
  by (simp add: isAlnum_def isAlpha_def isUpper_def isLower_def isDigit_def)

lemma clean_char_eq:
  "((if isAlnum x then x else 95) = (if isAlnum y then y else 95)) = (x = y \<or> (\<not> isAlnum x \<and> \<not> isAlnum y))"
  using isAlnum_underscore by auto

lemma map_eq_list_all2: "(map f xs = map f ys) = list_all2 (\<lambda>x y. f x = f y) xs ys"
  by (induction xs arbitrary: ys) (auto simp: list_all2_Cons1)

text \<open>
  C1 (amended). Two addresses with the same group flag get the same file exactly when
  they have the same length and at every position either hold the same character or both
  hold a character that is not a letter or digit. So addresses that differ in length, or
  in a letter or digit, never share a record.
\<close>

theorem getUserDataPath_collision:
  "(getUserDataPath a g = getUserDataPath b g) =
     list_all2 (\<lambda>x y. x = y \<or> (\<not> isAlnum x \<and> \<not> isAlnum y)) a b"
  by (simp add: getUserDataPath_def Let_def map_eq_list_all2 clean_char_eq)

theorem getUserDataPath_collision_witness:
  "getUserDataPath (str ''8801711111111@s.whatsapp.net'') False
     \<noteq> getUserDataPath (str ''8801711111112@s.whatsapp.net'') False"
  using getUserDataPath_collision[of "str ''8801711111111@s.whatsapp.net''" False
      "str ''8801711111112@s.whatsapp.net''"]
  by (simp add: str_Cons str_Nil isAlnum_def isDigit_def)

text \<open>
  C1 as stated fails: the device form and the agent form of an address differ only in
  \<open>:\<close> against \<open>_\<close>, and both become \<open>_\<close>.
\<close>

theorem getUserDataPath_not_injective:
  "str ''8801711111111:1@s.whatsapp.net'' \<noteq> str ''8801711111111_1@s.whatsapp.net''
   \<and> getUserDataPath (str ''8801711111111:1@s.whatsapp.net'') False
       = getUserDataPath (str ''8801711111111_1@s.whatsapp.net'') False"
  by (simp add: getUserDataPath_def isAlnum_def isAlpha_def isUpper_def isLower_def isDigit_def
      str_Cons str_Nil Let_def)

lemma mapGet_insertFile:
  "mapGet es k = None \<Longrightarrow> mapGet (insertFile k v es) j = (if j = k then Some v else mapGet es j)"
  by (induction es) (auto simp: mapGet_def split: if_splits)

lemma mapGet_writeFile: "mapGet (writeFile k v es) j = (if j = k then Some v else mapGet es j)"
  by (simp add: writeFile_def mapGet_insertFile mapGet_mapSet)

lemma load_save: "loadUserData (saveUserData fs uid g d) uid g = d"
  by (simp add: loadUserData_def saveUserData_def mapGet_writeFile)

lemma load_save_other:
  "getUserDataPath uid' g' \<noteq> getUserDataPath uid g \<Longrightarrow>
   loadUserData (saveUserData fs uid g d) uid' g' = loadUserData fs uid' g'"
  by (simp add: loadUserData_def saveUserData_def mapGet_writeFile)

lemma load_updateUserProfile:
  "loadUserData (fst (updateUserProfile fs uid g p x)) uid g = snd (updateUserProfile fs uid g p x)"
  by (simp add: updateUserProfile_def Let_def load_save)

lemma updateUserProfile_language:
  "language (preferences (snd (updateUserProfile fs uid g p \<lparr>addLanguage = Some l, addParticipants = None\<rparr>))) = l"
  by (simp add: updateUserProfile_def Let_def)

lemma updateUserProfile_name:
  "name (profile (snd (updateUserProfile fs uid g p x))) =
     (case patchName p of None \<Rightarrow> name (profile (loadUserData fs uid g)) | Some n \<Rightarrow> Some n)"
  by (simp add: updateUserProfile_def Let_def split: option.splits)

lemma space_not_letter:
  assumes "isSpace c"
  shows "\<not> isBengali c" and "\<not> isArabic c" and "\<not> isHindi c" and "\<not> isAlpha c"
  using assms
  by (auto simp: isSpace_def isBengali_def isArabic_def isHindi_def isAlpha_def isUpper_def isLower_def)

lemma trim_Nil_all_space: "trim t = [] \<Longrightarrow> list_all isSpace t"
proof -
  assume "trim t = []"
  then have a: "list_all isSpace (dropWhile isSpace t)"
    by (simp add: trim_def dropWhile_eq_Nil_conv list_all_iff)
  have "dropWhile isSpace t = []"
  proof (cases "dropWhile isSpace t")
    case Nil then show ?thesis .
  next
    case (Cons d ds)
    then have "\<not> isSpace d" using hd_dropWhile[of isSpace t] by simp
    with a Cons show ?thesis by simp
  qed
  then show ?thesis by (simp add: dropWhile_eq_Nil_conv list_all_iff)
qed

lemma blank_detects_auto:
  assumes "trim t = []"
  shows "detectedLanguage t = str ''auto''"
proof -
  from trim_Nil_all_space[OF assms] have "\<forall>c\<in>set t. isSpace c" by (simp add: list_all_iff)
  then have "\<not> list_ex isBengali t" "\<not> list_ex isArabic t" "\<not> list_ex isHindi t" "\<not> list_ex isAlpha t"
    using space_not_letter by (auto simp: list_ex_iff)
  then show ?thesis by (simp add: detectedLanguage_def)
qed

lemma detectAndUpdateLanguage_returns:
  "snd (detectAndUpdateLanguage fs uid g t) = detectedLanguage t"
proof (cases "t = [] \<or> trim t = []")
  case True
  then have "trim t = []" by (auto simp: trim_def)
  from blank_detects_auto[OF this] True show ?thesis by (simp add: detectAndUpdateLanguage_def)
next
  case False
  then show ?thesis by (simp add: detectAndUpdateLanguage_def Let_def)
qed

lemma detectAndUpdateLanguage_files:
  "fst (detectAndUpdateLanguage fs uid g t) =
     (if detectedLanguage t \<noteq> str ''auto''
         \<and> (language (preferences (loadUserData fs uid g)) = []
            \<or> language (preferences (loadUserData fs uid g)) = str ''auto'')
      then fst (updateUserProfile fs uid g noPatch \<lparr>addLanguage = Some (detectedLanguage t), addParticipants = None\<rparr>)
      else fs)"
proof (cases "t = [] \<or> trim t = []")
  case True
  then have "trim t = []" by (auto simp: trim_def)
  from blank_detects_auto[OF this] True show ?thesis by (simp add: detectAndUpdateLanguage_def)
next
  case False
  then show ?thesis by (simp add: detectAndUpdateLanguage_def Let_def)
qed

text \<open>
  C6 (amended). The detected code follows the first range, in the order Bengali, Arabic,
  Devanagari, Latin, that has a character in the text; it is returned in every case. The
  detected code replaces the stored preference exactly when a language was detected and
  the preference is \<open>auto\<close> or not set (empty); a preference set to anything else stays,
  and the stored files are then left as they are.
\<close>

theorem detectAndUpdateLanguage_persists_auto_or_unset:
  "snd (detectAndUpdateLanguage fs uid g t) =
     (if list_ex isBengali t then str ''bn''
      else if list_ex isArabic t then str ''ar''
      else if list_ex isHindi t then str ''hi''
      else if list_ex isAlpha t then str ''en''
      else str ''auto'')
   \<and> language (preferences (loadUserData (fst (detectAndUpdateLanguage fs uid g t)) uid g)) =
       (if (language (preferences (loadUserData fs uid g)) = str ''auto''
            \<or> language (preferences (loadUserData fs uid g)) = [])
           \<and> snd (detectAndUpdateLanguage fs uid g t) \<noteq> str ''auto''
        then snd (detectAndUpdateLanguage fs uid g t)
        else language (preferences (loadUserData fs uid g)))
   \<and> (language (preferences (loadUserData fs uid g)) \<noteq> str ''auto''
        \<and> language (preferences (loadUserData fs uid g)) \<noteq> []
        \<longrightarrow> fst (detectAndUpdateLanguage fs uid g t) = fs)"
proof -
  have 1: "snd (detectAndUpdateLanguage fs uid g t) =
     (if list_ex isBengali t then str ''bn''
      else if list_ex isArabic t then str ''ar''
      else if list_ex isHindi t then str ''hi''
      else if list_ex isAlpha t then str ''en''
      else str ''auto'')"
    by (simp add: detectAndUpdateLanguage_returns detectedLanguage_def)
  have 2: "language (preferences (loadUserData (fst (detectAndUpdateLanguage fs uid g t)) uid g)) =
       (if (language (preferences (loadUserData fs uid g)) = str ''auto''
            \<or> language (preferences (loadUserData fs uid g)) = [])
           \<and> snd (detectAndUpdateLanguage fs uid g t) \<noteq> str ''auto''
        then snd (detectAndUpdateLanguage fs uid g t)
        else language (preferences (loadUserData fs uid g)))"
    by (auto simp: detectAndUpdateLanguage_returns detectAndUpdateLanguage_files
        load_updateUserProfile updateUserProfile_language)
  have 3: "language (preferences (loadUserData fs uid g)) \<noteq> str ''auto''
        \<and> language (preferences (loadUserData fs uid g)) \<noteq> []
        \<longrightarrow> fst (detectAndUpdateLanguage fs uid g t) = fs"
    by (simp add: detectAndUpdateLanguage_files)
  from 1 2 3 show ?thesis by blast
qed

text \<open>
  A fresh record: the first call, on Bengali text, returns \<open>bn\<close> and stores it; the second
  call, on English text, returns \<open>en\<close> and the stored preference is still \<open>bn\<close>. Arabic
  and Devanagari text give \<open>ar\<close> and \<open>hi\<close>, and an earlier range wins over a later one.
\<close>

theorem detectAndUpdateLanguage_persists_auto_or_unset_witness:
  "snd (detectAndUpdateLanguage [] (str ''8801711111111@s.whatsapp.net'') False [2476, 2482, 2507]) = str ''bn''
   \<and> language (preferences (loadUserData
        (fst (detectAndUpdateLanguage [] (str ''8801711111111@s.whatsapp.net'') False [2476, 2482, 2507]))
        (str ''8801711111111@s.whatsapp.net'') False)) = str ''bn''
   \<and> snd (detectAndUpdateLanguage
        (fst (detectAndUpdateLanguage [] (str ''8801711111111@s.whatsapp.net'') False [2476, 2482, 2507]))
        (str ''8801711111111@s.whatsapp.net'') False (str ''hello'')) = str ''en''
   \<and> language (preferences (loadUserData
        (fst (detectAndUpdateLanguage
           (fst (detectAndUpdateLanguage [] (str ''8801711111111@s.whatsapp.net'') False [2476, 2482, 2507]))
           (str ''8801711111111@s.whatsapp.net'') False (str ''hello'')))
        (str ''8801711111111@s.whatsapp.net'') False)) = str ''bn''
   \<and> snd (detectAndUpdateLanguage [] (str ''8801711111111@s.whatsapp.net'') False [1587, 1604, 1575, 1605]) = str ''ar''
   \<and> snd (detectAndUpdateLanguage [] (str ''8801711111111@s.whatsapp.net'') False [2344, 2350, 2360]) = str ''hi''
   \<and> snd (detectAndUpdateLanguage [] (str ''8801711111111@s.whatsapp.net'') False [104, 105, 32, 2344, 1587, 2476]) = str ''bn''
   \<and> snd (detectAndUpdateLanguage [] (str ''8801711111111@s.whatsapp.net'') False [104, 105, 32, 2344, 1587]) = str ''ar''
   \<and> snd (detectAndUpdateLanguage [] (str ''8801711111111@s.whatsapp.net'') False [104, 105, 32, 2344]) = str ''hi''"
proof -
  let ?u = "str ''8801711111111@s.whatsapp.net''"
  let ?fs1 = "fst (detectAndUpdateLanguage [] ?u False [2476, 2482, 2507])"
  have fresh: "language (preferences (loadUserData [] ?u False)) = str ''auto''"
    by (simp add: loadUserData_def mapGet_def defaultUserData_def)
  have ne: "str ''auto'' \<noteq> []" "str ''bn'' \<noteq> str ''auto''" "str ''bn'' \<noteq> []"
    by (simp_all add: str_Cons str_Nil)
  note t1 = detectAndUpdateLanguage_persists_auto_or_unset[of "[]" ?u False "[2476, 2482, 2507]"]
  have r1: "snd (detectAndUpdateLanguage [] ?u False [2476, 2482, 2507]) = str ''bn''"
    using t1[THEN conjunct1] by (simp add: isBengali_def)
  have l1: "language (preferences (loadUserData ?fs1 ?u False)) = str ''bn''"
    using t1[THEN conjunct2, THEN conjunct1] fresh r1 ne by simp
  note t2 = detectAndUpdateLanguage_persists_auto_or_unset[of ?fs1 ?u False "str ''hello''"]
  have r2: "snd (detectAndUpdateLanguage ?fs1 ?u False (str ''hello'')) = str ''en''"
    using t2[THEN conjunct1]
    by (simp add: isBengali_def isArabic_def isHindi_def isAlpha_def isUpper_def isLower_def
        str_Cons str_Nil)
  have l2: "language (preferences (loadUserData (fst (detectAndUpdateLanguage ?fs1 ?u False (str ''hello''))) ?u False))
              = str ''bn''"
    using t2[THEN conjunct2, THEN conjunct1] l1 ne by simp
  have r3: "snd (detectAndUpdateLanguage [] ?u False [1587, 1604, 1575, 1605]) = str ''ar''"
    using detectAndUpdateLanguage_persists_auto_or_unset[of "[]" ?u False "[1587, 1604, 1575, 1605]", THEN conjunct1]
    by (simp add: isBengali_def isArabic_def)
  have r4: "snd (detectAndUpdateLanguage [] ?u False [2344, 2350, 2360]) = str ''hi''"
    using detectAndUpdateLanguage_persists_auto_or_unset[of "[]" ?u False "[2344, 2350, 2360]", THEN conjunct1]
    by (simp add: isBengali_def isArabic_def isHindi_def)
  have r5: "snd (detectAndUpdateLanguage [] ?u False [104, 105, 32, 2344, 1587, 2476]) = str ''bn''"
    using detectAndUpdateLanguage_persists_auto_or_unset[of "[]" ?u False "[104, 105, 32, 2344, 1587, 2476]", THEN conjunct1]
    by (simp add: isBengali_def)
  have r6: "snd (detectAndUpdateLanguage [] ?u False [104, 105, 32, 2344, 1587]) = str ''ar''"
    using detectAndUpdateLanguage_persists_auto_or_unset[of "[]" ?u False "[104, 105, 32, 2344, 1587]", THEN conjunct1]
    by (simp add: isBengali_def isArabic_def)
  have r7: "snd (detectAndUpdateLanguage [] ?u False [104, 105, 32, 2344]) = str ''hi''"
    using detectAndUpdateLanguage_persists_auto_or_unset[of "[]" ?u False "[104, 105, 32, 2344]", THEN conjunct1]
    by (simp add: isBengali_def isArabic_def isHindi_def)
  show ?thesis using r1 l1 r2 l2 r3 r4 r5 r6 r7 by simp
qed

text \<open>
  C6 as stated fails: the stored preference of this record is not \<open>auto\<close> (it is not
  set), and the call on Bengali text stores \<open>bn\<close>.
\<close>

theorem detectAndUpdateLanguage_overwrites_unset:
  "language (preferences (loadUserData unsetLanguageFiles aliceJid False)) \<noteq> str ''auto''
   \<and> language (preferences (loadUserData
        (fst (detectAndUpdateLanguage unsetLanguageFiles aliceJid False [2476, 2482, 2507]))
        aliceJid False)) = str ''bn''"
proof -
  have p: "getUserDataPath aliceJid False = (INBOX_DATA_DIR, str ''8801711111111_s_whatsapp_net.json'')"
    by (simp add: getUserDataPath_def aliceJid_def cls strs Let_def)
  have l: "language (preferences (loadUserData unsetLanguageFiles aliceJid False)) = []"
    by (simp add: loadUserData_def p unsetLanguageFiles_def mapGet_def)
  have d: "detectedLanguage [2476, 2482, 2507] = str ''bn''"
    by (simp add: detectedLanguage_def isBengali_def)
  have ne: "str ''auto'' \<noteq> []" "str ''bn'' \<noteq> str ''auto''"
    by (simp_all add: strs)
  have "language (preferences (loadUserData
        (fst (detectAndUpdateLanguage unsetLanguageFiles aliceJid False [2476, 2482, 2507]))
        aliceJid False)) = str ''bn''"
    by (simp add: detectAndUpdateLanguage_files d l ne load_updateUserProfile updateUserProfile_language)
  with l ne show ?thesis by simp
qed

section \<open>Relay intent\<close>

lemma jsIncludes_sublist: "jsIncludes s p = sublist p s"
  by (induction s) (simp_all add: sublist_Cons_right)

lemma checkIfTellSomeoneMessage_iff:
  "checkIfTellSomeoneMessage lc originalMessage cleanedMessage =
     (originalMessage \<noteq> [] \<and> cleanedMessage \<noteq> []
      \<and> (\<exists>pattern \<in> set (englishPatterns @ bengaliPatterns). sublist pattern (lc originalMessage)))"
  by (auto simp: checkIfTellSomeoneMessage_def Let_def list_ex_iff jsIncludes_sublist)

lemma framings_differ: "relayFraming \<noteq> plainFraming"
  by (simp add: relayFraming_def plainFraming_def)

text \<open>
  C9 (amended). The flag is true exactly when the raw text and the text left after
  stripping the mentions are both non-empty and the lowercased raw text contains one of
  the fixed markers; the flag picks the framing sentence of the composed message, and
  the two framings give different messages.
\<close>

theorem relayIntent_iff:
  "relayIntent lc messageText mentionedNames mentionedNumbers =
     (messageText \<noteq> []
      \<and> extractActualMessage messageText mentionedNames mentionedNumbers \<noteq> []
      \<and> (\<exists>pattern \<in> set (englishPatterns @ bengaliPatterns). sublist pattern (lc messageText)))
   \<and> personalizedMessage True g s e = g @ [32, 2469, 2503, 2453, 2503, 32] @ s @ relayFraming @ e @ [34]
   \<and> personalizedMessage False g s e = g @ [32, 2469, 2503, 2453, 2503, 32] @ s @ plainFraming @ e @ [34]
   \<and> personalizedMessage True g s e \<noteq> personalizedMessage False g s e"
proof -
  have "length (personalizedMessage True g s e) \<noteq> length (personalizedMessage False g s e)"
    by (simp add: personalizedMessage_def relayFraming_def plainFraming_def)
  then have "personalizedMessage True g s e \<noteq> personalizedMessage False g s e"
    by auto
  then show ?thesis
    by (simp add: relayIntent_def checkIfTellSomeoneMessage_iff personalizedMessage_def)
qed

theorem relayIntent_iff_witness:
  "relayIntent asciiLower (str ''Hey @1234567890 tell him I am on my way'')
     (extractMentionedNames (str ''Hey @1234567890 tell him I am on my way''))
     (extractMentionedNumbers (str ''Hey @1234567890 tell him I am on my way''))
   \<and> str ''tell'' \<in> set englishPatterns \<and> str ''say to'' \<in> set englishPatterns
   \<and> str ''bolo'' \<in> set bengaliPatterns \<and> [2476, 2482, 2507] \<in> set bengaliPatterns"
proof -
  let ?t = "str ''Hey @1234567890 tell him I am on my way''"
  have nn: "extractMentionedNumbers ?t = [str ''1234567890'']"
    by (simp add: extract_defs cls strs Let_def)
  have nm: "extractMentionedNames ?t = []"
    by (simp add: extract_defs cls strs Let_def upt_rec)
  have a: "extractActualMessage ?t (extractMentionedNames ?t) (extractMentionedNumbers ?t)
             = str ''Hey tell him I am on my way''"
    unfolding nn nm by (simp add: extract_defs cls strs Let_def)
  have b: "sublist (str ''tell'') (asciiLower ?t)"
    unfolding jsIncludes_sublist[symmetric] by (simp add: asciiLower_def cls strs)
  have c: "str ''tell'' \<in> set englishPatterns" "str ''say to'' \<in> set englishPatterns"
    "str ''bolo'' \<in> set bengaliPatterns" "[2476, 2482, 2507] \<in> set bengaliPatterns"
    by (simp_all add: englishPatterns_def bengaliPatterns_def)
  have d: "?t \<noteq> []" "str ''Hey tell him I am on my way'' \<noteq> []"
    by (simp_all add: str_Cons)
  from b c(1) have "\<exists>pattern \<in> set (englishPatterns @ bengaliPatterns). sublist pattern (asciiLower ?t)"
    by auto
  with a d c show ?thesis
    using relayIntent_iff[of asciiLower ?t "extractMentionedNames ?t" "extractMentionedNumbers ?t"]
    by simp
qed

text \<open>
  C9 as stated fails: the raw text \<open>@tell\<close> contains the marker \<open>tell\<close>, but nothing is
  left after the mention is stripped, and the flag is false.
\<close>

theorem relayIntent_false_with_marker:
  "jsIncludes (str ''@tell'') (str ''tell'') \<and> str ''tell'' \<in> set englishPatterns
   \<and> \<not> relayIntent asciiLower (str ''@tell'') (extractMentionedNames (str ''@tell''))
         (extractMentionedNumbers (str ''@tell''))"
proof -
  have "extractMentionedNumbers (str ''@tell'') = []"
    by (simp add: extract_defs cls strs Let_def)
  moreover have "extractMentionedNames (str ''@tell'') = [str ''tell'']"
    by (simp add: extract_defs cls strs Let_def upt_rec)
  moreover have "extractActualMessage (str ''@tell'') [str ''tell''] [] = []"
    by (simp add: extract_defs cls strs Let_def)
  ultimately have "\<not> relayIntent asciiLower (str ''@tell'') (extractMentionedNames (str ''@tell''))
         (extractMentionedNumbers (str ''@tell''))"
    by (simp add: relayIntent_def checkIfTellSomeoneMessage_def)
  moreover have "jsIncludes (str ''@tell'') (str ''tell'')" by (simp add: strs)
  moreover have "str ''tell'' \<in> set englishPatterns" by (simp add: englishPatterns_def)
  ultimately show ?thesis by simp
qed

section \<open>Group names and push names\<close>

lemma addMessageToConversation_fst:
  "fst (addMessageToConversation pr fs uid g m fromMe) =
     saveUserData fs uid g (snd (addMessageToConversation pr fs uid g m fromMe))"
  by (simp add: addMessageToConversation_def Let_def)

lemma profile_steps:
  "profile (withSender uid g m fromMe d) = profile d"
  "profile (withMessage pr mo d) = profile d"
  "profile (withCount d) = profile d"
  "profile (withTopParticipants uid g m fromMe d) = profile d"
  by (simp_all add: withSender_def withMessage_def withCount_def withTopParticipants_def Let_def)

lemma withProfile_group_name:
  "name (profile (withProfile True m fromMe d)) =
     (if \<not> fromMe \<and> (case key m of None \<Rightarrow> False | Some k \<Rightarrow> truthy (remoteJid k))
         \<and> (case groupMetadata m of None \<Rightarrow> False | Some gm \<Rightarrow> truthy (subject gm))
      then subject (the (groupMetadata m))
      else name (profile d))"
  by (simp add: withProfile_def withGroupMetadata_def Let_def split: option.splits)

text \<open>
  In \<open>addMessageToConversation\<close> the name of a group record changes only to the subject
  carried by the message's group metadata, and the push-name update of \<open>processMessage\<close>
  itself is guarded by \<open>!isGroup\<close>.
\<close>

lemma addMessageToConversation_group_name:
  "name (profile (snd (addMessageToConversation pr fs uid True m fromMe))) =
     (if \<not> fromMe \<and> (case key m of None \<Rightarrow> False | Some k \<Rightarrow> truthy (remoteJid k))
         \<and> (case groupMetadata m of None \<Rightarrow> False | Some gm \<Rightarrow> truthy (subject gm))
      then subject (the (groupMetadata m))
      else name (profile (loadUserData fs uid True)))"
  by (simp add: addMessageToConversation_def Let_def profile_steps withProfile_group_name)

lemma name_after_add_group:
  assumes "fromMe \<or> groupMetadata m = None"
  shows "name (profile (loadUserData (fst (addMessageToConversation pr fs uid True m fromMe)) uid True))
           = name (profile (loadUserData fs uid True))"
  using assms by (auto simp: addMessageToConversation_fst load_save addMessageToConversation_group_name)

lemma name_after_update:
  "name (profile (loadUserData (fst (updateUserProfile fs uid g p x)) uid g)) =
     (case patchName p of None \<Rightarrow> name (profile (loadUserData fs uid g)) | Some n \<Rightarrow> Some n)"
  by (simp add: load_updateUserProfile updateUserProfile_name)

lemma name_after_detect:
  "name (profile (loadUserData (fst (detectAndUpdateLanguage fs uid g t)) uid g))
     = name (profile (loadUserData fs uid g))"
  by (simp add: detectAndUpdateLanguage_files name_after_update noPatch_def)

text \<open>
  \<open>sendAutoReply\<close> has no such guard: for a group record without a name it stores the
  sender's push name as the name of the group.
\<close>

lemma sendAutoReply_names_group:
  assumes k: "key m = Some k" and j: "remoteJid k = Some jid" and g: "isGroupMessage m"
    and ai: "aiOn (envPrefs e)" and t: "messageTextOf m [] \<noteq> []"
    and pn: "truthy (pushName m)" and gm: "groupMetadata m = None"
    and un: "\<not> truthy (name (profile (loadUserData fs jid True)))"
  shows "name (profile (loadUserData (sendAutoReply e fs m) jid True)) = pushName m"
proof -
  from g k j have tj: "truthy (remoteJid k)" by (simp add: isGroupMessage_def)
  let ?fs1 = "fst (addMessageToConversation (envPrefs e) fs jid True m False)"
  let ?fs2 = "fst (updateUserProfile ?fs1 jid True (namePatch (the (pushName m))) noAdditionalData)"
  let ?fs3 = "fst (detectAndUpdateLanguage ?fs2 jid True (messageTextOf m []))"
  have n2: "name (profile (loadUserData ?fs2 jid True)) = pushName m"
    using pn by (cases "pushName m") (simp_all add: name_after_update namePatch_def)
  have n3: "name (profile (loadUserData ?fs3 jid True)) = pushName m"
    by (simp add: name_after_detect n2)
  have n4: "name (profile (loadUserData (fst (addMessageToConversation (envPrefs e) ?fs3 jid True r True)) jid True))
              = pushName m" for r
    by (simp add: name_after_add_group n3)
  show ?thesis
    using k j g ai t pn un tj n3 n4
    by (simp add: sendAutoReply_def Let_def split: option.splits)
qed

text \<open>
  C5. A group whose subject is \<open>Unknown Group\<close>: \<open>processMessage\<close> does not store that
  name, and \<open>sendAutoReply\<close>, which it calls, stores the sender's push name \<open>Alice\<close> as
  the name of the group record.
\<close>

theorem processMessage_group_named_by_pushName:
  "isGroupMessage aliceGroupMessage
   \<and> pushName aliceGroupMessage = Some (str ''Alice'')
   \<and> \<not> isl (processMessage unknownGroupEnv \<lparr>files = [], processedMessages = []\<rparr> aliceGroupMessage)
   \<and> name (profile (loadUserData
        (files (projr (processMessage unknownGroupEnv \<lparr>files = [], processedMessages = []\<rparr> aliceGroupMessage)))
        groupJid True)) = Some (str ''Alice'')"
proof -
  let ?k = "\<lparr>remoteJid = Some groupJid, participant = Some aliceJid, keyId = Some (str ''M1'')\<rparr>"
  have k: "key aliceGroupMessage = Some ?k" by (simp add: aliceGroupMessage_def)
  have g: "isGroupMessage aliceGroupMessage"
    by (simp add: isGroupMessage_def aliceGroupMessage_def groupJid_def suffix_def strs)
  have pn: "pushName aliceGroupMessage = Some (str ''Alice'')" by (simp add: aliceGroupMessage_def)
  have t: "messageTextOf aliceGroupMessage [] = str ''hello''"
    by (simp add: messageTextOf_def aliceGroupMessage_def orDefault_def orElse_def strs)
  have nn: "extractMentionedNumbers (str ''hello'') = []"
    by (simp add: extract_defs cls strs Let_def)
  have nm: "extractMentionedNames (str ''hello'') = []"
    by (simp add: extract_defs cls strs Let_def upt_rec)
  have fresh: "name (profile (loadUserData [] groupJid True)) = None"
    by (simp add: loadUserData_def mapGet_def defaultUserData_def)
  have ne: "str ''hello'' \<noteq> []" "str ''Alice'' \<noteq> []" "str ''M1'' \<noteq> []"
    by (simp_all add: strs)
  have gi: "fst (updateGroupInfo unknownGroupEnv [] aliceGroupMessage groupJid) = []"
    by (simp add: updateGroupInfo_def unknownGroupEnv_def Let_def fresh strs)
  have pm: "processMessage unknownGroupEnv \<lparr>files = [], processedMessages = []\<rparr> aliceGroupMessage =
              Inr \<lparr>files = sendAutoReply unknownGroupEnv [] aliceGroupMessage, processedMessages = [str ''M1'']\<rparr>"
    by (simp add: processMessage_def k g pn t nn nm gi Let_def ne)
  have "name (profile (loadUserData (sendAutoReply unknownGroupEnv [] aliceGroupMessage) groupJid True))
          = pushName aliceGroupMessage"
  proof (rule sendAutoReply_names_group[OF k _ g])
    show "remoteJid ?k = Some groupJid" by simp
    show "aiOn (envPrefs unknownGroupEnv)" by (simp add: unknownGroupEnv_def)
    show "messageTextOf aliceGroupMessage [] \<noteq> []" by (simp add: t strs)
    show "truthy (pushName aliceGroupMessage)" by (simp add: pn strs)
    show "groupMetadata aliceGroupMessage = None" by (simp add: aliceGroupMessage_def)
    show "\<not> truthy (name (profile (loadUserData [] groupJid True)))" by (simp add: fresh)
  qed
  with g pn pm show ?thesis by simp
qed

theorem processMessage_group_named_by_pushName_witness:
  "name (profile (loadUserData
        (files (projr (processMessage unknownGroupEnv \<lparr>files = [], processedMessages = []\<rparr> aliceGroupMessage)))
        groupJid True)) = pushName aliceGroupMessage"
  using processMessage_group_named_by_pushName by simp

section \<open>Resolving a name\<close>

lemma find_first:
  assumes "\<forall>v\<in>set pre. \<not> P v" and "P u"
  shows "find P (pre @ u # post) = Some u"
  using assms by (induction pre) auto

lemma find_none: "(\<forall>v\<in>set xs. \<not> P v) \<Longrightarrow> find P xs = None"
  by (simp add: find_None_iff)

lemma nameMatches_iff:
  "nameMatches lc n (Some d) =
     (d \<noteq> [] \<and> (trim (lc d) = n \<or> sublist n (trim (lc d)) \<or> sublist (trim (lc d)) n))"
  by (simp add: nameMatches_def Let_def jsIncludes_sublist)

lemma nameMatches_None: "\<not> nameMatches lc n None"
  by (simp add: nameMatches_def)

lemma findPhoneNumberByName_unfold:
  assumes "nm \<noteq> []"
  shows "findPhoneNumberByName lc allUsers nm =
           (case find (dmMatch lc nm) allUsers of
              Some u \<Rightarrow> Some (beforeAt (userId (snd u)))
            | None \<Rightarrow>
                (case find (partMatch lc nm) (groupParticipants allUsers) of
                   Some e \<Rightarrow> Some (beforeAt (fst e))
                 | None \<Rightarrow> None))"
proof -
  have a: "(\<lambda>u. fst u = Inbox \<and> nameMatches lc (trim (lc nm)) (name (profile (snd u)))) = dmMatch lc nm"
    by (auto simp: dmMatch_def)
  have b: "(\<lambda>e. nameMatches lc (trim (lc nm)) (partName (snd e))) = partMatch lc nm"
    by (auto simp: partMatch_def)
  show ?thesis using assms by (simp add: findPhoneNumberByName_def Let_def a b cong: option.case_cong)
qed

text \<open>For the empty name the resolver returns not-found, whatever is stored.\<close>

lemma findPhoneNumberByName_empty: "findPhoneNumberByName lc allUsers [] = None"
  by (simp add: findPhoneNumberByName_def)

text \<open>
  C2 (amended). For a non-empty name: the first direct-message record, in the order of
  enumeration, whose display name matches decides the result, whatever the groups hold;
  when no direct-message record matches, the first matching participant of the group
  rosters decides it; when nothing matches the result is not-found. The result is the
  part of the address before its \<open>@\<close>. A display name matches when it is not empty and,
  lowercased and trimmed, equals, contains or is contained by the lowercased and trimmed
  name.
\<close>

theorem findPhoneNumberByName_first_match:
  assumes "nm \<noteq> []"
  shows "(allUsers = pre @ u # post \<and> dmMatch lc nm u \<and> (\<forall>v\<in>set pre. \<not> dmMatch lc nm v)
            \<longrightarrow> findPhoneNumberByName lc allUsers nm = Some (beforeAt (userId (snd u))))
       \<and> ((\<forall>v\<in>set allUsers. \<not> dmMatch lc nm v) \<and> groupParticipants allUsers = gpre @ e # gpost
            \<and> partMatch lc nm e \<and> (\<forall>v\<in>set gpre. \<not> partMatch lc nm v)
            \<longrightarrow> findPhoneNumberByName lc allUsers nm = Some (beforeAt (fst e)))
       \<and> ((\<forall>v\<in>set allUsers. \<not> dmMatch lc nm v) \<and> (\<forall>v\<in>set (groupParticipants allUsers). \<not> partMatch lc nm v)
            \<longrightarrow> findPhoneNumberByName lc allUsers nm = None)
       \<and> dmMatch lc nm u =
            (fst u = Inbox \<and> (case name (profile (snd u)) of
                None \<Rightarrow> False
              | Some d \<Rightarrow> d \<noteq> [] \<and> (trim (lc d) = trim (lc nm) \<or> sublist (trim (lc nm)) (trim (lc d))
                                     \<or> sublist (trim (lc d)) (trim (lc nm)))))
       \<and> partMatch lc nm e =
            (case partName (snd e) of
                None \<Rightarrow> False
              | Some d \<Rightarrow> d \<noteq> [] \<and> (trim (lc d) = trim (lc nm) \<or> sublist (trim (lc nm)) (trim (lc d))
                                     \<or> sublist (trim (lc d)) (trim (lc nm))))"
proof -
  note u = findPhoneNumberByName_unfold[OF assms]
  have 1: "allUsers = pre @ u # post \<and> dmMatch lc nm u \<and> (\<forall>v\<in>set pre. \<not> dmMatch lc nm v)
            \<longrightarrow> findPhoneNumberByName lc allUsers nm = Some (beforeAt (userId (snd u)))"
    by (auto simp: u find_first)
  have 2: "(\<forall>v\<in>set allUsers. \<not> dmMatch lc nm v) \<and> groupParticipants allUsers = gpre @ e # gpost
            \<and> partMatch lc nm e \<and> (\<forall>v\<in>set gpre. \<not> partMatch lc nm v)
            \<longrightarrow> findPhoneNumberByName lc allUsers nm = Some (beforeAt (fst e))"
    by (auto simp: u find_first find_none)
  have 3: "(\<forall>v\<in>set allUsers. \<not> dmMatch lc nm v) \<and> (\<forall>v\<in>set (groupParticipants allUsers). \<not> partMatch lc nm v)
            \<longrightarrow> findPhoneNumberByName lc allUsers nm = None"
    by (auto simp: u find_none)
  have 4: "dmMatch lc nm u =
            (fst u = Inbox \<and> (case name (profile (snd u)) of
                None \<Rightarrow> False
              | Some d \<Rightarrow> d \<noteq> [] \<and> (trim (lc d) = trim (lc nm) \<or> sublist (trim (lc nm)) (trim (lc d))
                                     \<or> sublist (trim (lc d)) (trim (lc nm)))))"
    by (simp add: dmMatch_def nameMatches_iff nameMatches_None split: option.splits)
  have 5: "partMatch lc nm e =
            (case partName (snd e) of
                None \<Rightarrow> False
              | Some d \<Rightarrow> d \<noteq> [] \<and> (trim (lc d) = trim (lc nm) \<or> sublist (trim (lc nm)) (trim (lc d))
                                     \<or> sublist (trim (lc d)) (trim (lc nm))))"
    by (simp add: partMatch_def nameMatches_iff nameMatches_None split: option.splits)
  from 1 2 3 4 5 show ?thesis by blast
qed

lemma getAllUsers_karimFiles:
  "getAllUsers karimFiles =
     [(Inbox, (defaultUserData aliceJid False)
         \<lparr>profile := \<lparr>name = Some (str ''Karim''), description = None, memberCount = None\<rparr>\<rparr>),
      (Group, (defaultUserData groupJid True)
         \<lparr>participants :=
            [(str ''8801822222222@s.whatsapp.net'',
              \<lparr>partName = Some (str ''Karim Uddin''), isAdmin = Some False, isSuperAdmin = Some False\<rparr>)]\<rparr>)]"
  by (simp add: getAllUsers_def karimFiles_def suffix_def strs)

text \<open>
  The example: the direct conversation with \<open>Karim\<close> and the group participant
  \<open>Karim Uddin\<close> both match \<open>karim\<close>; the direct conversation is returned.
\<close>

theorem findPhoneNumberByName_first_match_witness:
  "partMatch asciiLower (str ''karim'') (hd (groupParticipants (getAllUsers karimFiles)))
   \<and> findPhoneNumberByName asciiLower (getAllUsers karimFiles) (str ''karim'') = Some (str ''8801711111111'')"
proof -
  let ?u = "(Inbox, (defaultUserData aliceJid False)
         \<lparr>profile := \<lparr>name = Some (str ''Karim''), description = None, memberCount = None\<rparr>\<rparr>)"
  let ?g = "(Group, (defaultUserData groupJid True)
         \<lparr>participants :=
            [(str ''8801822222222@s.whatsapp.net'',
              \<lparr>partName = Some (str ''Karim Uddin''), isAdmin = Some False, isSuperAdmin = Some False\<rparr>)]\<rparr>)"
  have ne: "str ''karim'' \<noteq> []" by (simp add: strs)
  have tn: "trim (asciiLower (str ''karim'')) = str ''karim''"
    by (simp add: trim_def asciiLower_def cls strs)
  have td: "trim (asciiLower (str ''Karim'')) = str ''karim''"
    by (simp add: trim_def asciiLower_def cls strs)
  have tg: "trim (asciiLower (str ''Karim Uddin'')) = str ''karim uddin''"
    by (simp add: trim_def asciiLower_def cls strs)
  have m: "dmMatch asciiLower (str ''karim'') ?u"
    by (simp add: dmMatch_def nameMatches_iff tn td defaultUserData_def) (simp add: strs)
  have "jsIncludes (str ''karim uddin'') (str ''karim'')" by (simp add: strs)
  then have pm: "partMatch asciiLower (str ''karim'') (hd (groupParticipants (getAllUsers karimFiles)))"
    by (simp add: getAllUsers_karimFiles groupParticipants_def partMatch_def nameMatches_iff tn tg
        jsIncludes_sublist defaultUserData_def) (simp add: strs)
  have l: "getAllUsers karimFiles = [] @ ?u # [?g]"
    by (simp add: getAllUsers_karimFiles)
  have "findPhoneNumberByName asciiLower (getAllUsers karimFiles) (str ''karim'')
          = Some (beforeAt (userId (snd ?u)))"
    using findPhoneNumberByName_first_match[OF ne, of "getAllUsers karimFiles" "[]" ?u "[?g]" asciiLower,
        THEN conjunct1] l m
    by simp
  moreover have "beforeAt (userId (snd ?u)) = str ''8801711111111''"
    by (simp add: beforeAt_def defaultUserData_def aliceJid_def strs)
  ultimately show ?thesis using pm by simp
qed

text \<open>
  C2 as stated fails at the empty name: the resolver returns not-found without looking
  at the records, while the scan the claim describes accepts the first direct-message
  record, since the empty name is contained in every display name.
\<close>

theorem findPhoneNumberByName_empty_name:
  "findPhoneNumberByName asciiLower (getAllUsers karimFiles) [] = None
   \<and> specResolveName asciiLower (getAllUsers karimFiles) [] = Some (str ''8801711111111'')"
proof -
  have "specNameMatches asciiLower [] (Some (str ''Karim''))"
    by (simp add: specNameMatches_def asciiLower_def cls strs)
  then have "specResolveName asciiLower (getAllUsers karimFiles) [] = Some (str ''8801711111111'')"
    by (simp add: specResolveName_def getAllUsers_karimFiles Let_def trim_def asciiLower_def
        defaultUserData_def beforeAt_def aliceJid_def) (simp add: strs)
  then show ?thesis by (simp add: findPhoneNumberByName_def)
qed

section \<open>Extracting numbers and stripping mentions\<close>

lemma not_space_64: "\<not> isSpace 64"
  by (simp add: isSpace_def)

lemma strip_one:
  "\<exists>c. xs = c @ (case xs of [] \<Rightarrow> xs | h # t \<Rightarrow> if h = k then t else xs) \<and> set c \<subseteq> {k}"
proof (cases xs)
  case Nil
  then show ?thesis by simp
next
  case (Cons h t)
  show ?thesis
  proof (cases "h = k")
    case True
    with Cons have "xs = [k] @ (case xs of [] \<Rightarrow> xs | h # t \<Rightarrow> if h = k then t else xs)" by simp
    then show ?thesis by (metis empty_set list.simps(15) subset_refl)
  next
    case False
    with Cons have "xs = [] @ (case xs of [] \<Rightarrow> xs | h # t \<Rightarrow> if h = k then t else xs)" by simp
    then show ?thesis by (metis empty_set empty_subsetI)
  qed
qed

text \<open>What a match of the number pattern consumes behind the \<open>@\<close> holds no further \<open>@\<close>.\<close>

lemma matchNumberAt_consumed:
  assumes "matchNumberAt cs = Some (n, rest)"
  shows "\<exists>consumed. cs = consumed @ rest \<and> 64 \<notin> set consumed"
proof -
  let ?r1 = "dropWhile isSpace cs"
  let ?r2 = "case ?r1 of [] \<Rightarrow> ?r1 | c # r \<Rightarrow> if c = 8234 then r else ?r1"
  let ?r3 = "case ?r2 of [] \<Rightarrow> ?r2 | c # r \<Rightarrow> if c = 43 then r else ?r2"
  let ?r4 = "dropWhile isDigit ?r3"
  have rest: "rest = (case ?r4 of [] \<Rightarrow> ?r4 | c # r \<Rightarrow> if c = 8236 then r else ?r4)"
    using assms by (simp add: matchNumberAt_def Let_def split: if_splits)
  have 1: "cs = takeWhile isSpace cs @ ?r1" by simp
  have s1: "64 \<notin> set (takeWhile isSpace cs)"
    using not_space_64 by (auto dest: set_takeWhileD)
  obtain c2 where 2: "?r1 = c2 @ ?r2" and s2: "set c2 \<subseteq> {8234}"
    using strip_one[of ?r1 8234] by blast
  obtain c3 where 3: "?r2 = c3 @ ?r3" and s3: "set c3 \<subseteq> {43}"
    using strip_one[of ?r2 43] by blast
  have 4: "?r3 = takeWhile isDigit ?r3 @ ?r4" by simp
  have s4: "64 \<notin> set (takeWhile isDigit ?r3)"
    by (auto dest!: set_takeWhileD simp: isDigit_def)
  obtain c5 where 5: "?r4 = c5 @ rest" and s5: "set c5 \<subseteq> {8236}"
    using strip_one[of ?r4 8236] rest by metis
  have "cs = (takeWhile isSpace cs @ c2 @ c3 @ takeWhile isDigit ?r3 @ c5) @ rest"
    using 1 2 3 4 5 by (metis append.assoc)
  moreover have "64 \<notin> set (takeWhile isSpace cs @ c2 @ c3 @ takeWhile isDigit ?r3 @ c5)"
    using s1 s2 s3 s4 s5 by auto
  ultimately show ?thesis by blast
qed

text \<open>A number that matches right behind some \<open>@\<close> of the text is among the numbers scanned.\<close>

lemma scanNumbers_finds:
  assumes "matchNumberAt rest0 = Some (n0, r0)"
  shows "n0 \<in> set (scanNumbers (pre @ 64 # rest0))"
proof (induction "pre @ 64 # rest0" arbitrary: pre rule: scanNumbers.induct)
  case 1
  then show ?case by simp
next
  case (2 c cs)
  show ?case
  proof (cases pre)
    case Nil
    with 2(4) have "c = 64" "cs = rest0" by simp_all
    with assms Nil show ?thesis by simp
  next
    case (Cons p pre')
    with 2(4) have c: "c = p" and cs: "cs = pre' @ 64 # rest0" by simp_all
    show ?thesis
    proof (cases "c = 64")
      case False
      with 2(3)[OF False cs] Cons c cs show ?thesis by simp
    next
      case True
      show ?thesis
      proof (cases "matchNumberAt cs")
        case None
        with 2(1)[OF True None cs] True Cons c cs show ?thesis by simp
      next
        case (Some x2)
        obtain n rest where x2: "x2 = (n, rest)" by (cases x2)
        from matchNumberAt_consumed[of cs n rest] Some x2
        obtain consumed where co: "cs = consumed @ rest" and no: "64 \<notin> set consumed" by auto
        from co cs have "pre' @ 64 # rest0 = consumed @ rest" by simp
        then obtain us where "(pre' = consumed @ us \<and> us @ 64 # rest0 = rest)
                            \<or> (pre' @ us = consumed \<and> 64 # rest0 = us @ rest)"
          by (auto simp: append_eq_append_conv2)
        then obtain pre'' where r: "rest = pre'' @ 64 # rest0"
        proof
          assume "pre' = consumed @ us \<and> us @ 64 # rest0 = rest"
          then show ?thesis using that by auto
        next
          assume a: "pre' @ us = consumed \<and> 64 # rest0 = us @ rest"
          show ?thesis
          proof (cases us)
            case Nil
            with a show ?thesis using that[of "[]"] by simp
          next
            case (Cons u us')
            with a have "u = 64" by simp
            with a Cons no show ?thesis by auto
          qed
        qed
        from x2 r have "(n, pre'' @ 64 # rest0) = x2" by simp
        from 2(2)[OF True Some this] r have "n0 \<in> set (scanNumbers rest)" by simp
        with True Some x2 Cons c cs show ?thesis by simp
      qed
    qed
  qed
qed

lemma matchNumberAt_token:
  assumes "post = [] \<or> \<not> isDigit (hd post)"
  shows "\<exists>r. matchNumberAt (str ''1234567890'' @ post) = Some (str ''1234567890'', r)"
proof -
  have tq: "takeWhile isDigit post = []" "dropWhile isDigit post = post"
    using assms by (cases post; simp)+
  have d: "takeWhile isDigit (str ''1234567890'' @ post) = str ''1234567890''"
    "dropWhile isDigit (str ''1234567890'' @ post) = post"
    by (simp_all add: strs isDigit_def tq)
  have h: "dropWhile isSpace (str ''1234567890'' @ post) = str ''1234567890'' @ post"
    by (simp add: strs isSpace_def)
  have c: "(case str ''1234567890'' @ post of [] \<Rightarrow> x | c # r \<Rightarrow> f c r) = f 49 (str ''234567890'' @ post)" for x :: 'a and f
    by (simp add: strs)
  have t: "trim (str ''1234567890'') = str ''1234567890''"
    by (simp add: trim_def strs isSpace_def)
  have ne: "str ''1234567890'' \<noteq> []" by (simp add: strs)
  show ?thesis
    by (simp add: matchNumberAt_def Let_def h c d t ne)
qed

lemma extractMentionedNumbers_token:
  assumes "post = [] \<or> \<not> isDigit (hd post)"
  shows "str ''1234567890'' \<in> set (extractMentionedNumbers (pre @ str ''@1234567890'' @ post))"
proof -
  from matchNumberAt_token[OF assms] obtain r
    where m: "matchNumberAt (str ''1234567890'' @ post) = Some (str ''1234567890'', r)" by blast
  have t: "pre @ str ''@1234567890'' @ post = pre @ 64 # (str ''1234567890'' @ post)"
    by (simp add: strs)
  from scanNumbers_finds[OF m, of pre]
  have f: "str ''1234567890'' \<in> set (scanNumbers (pre @ str ''@1234567890'' @ post))"
    by (simp add: t)
  then have "scanNumbers (pre @ str ''@1234567890'' @ post) \<noteq> []" by auto
  with f show ?thesis by (simp add: extractMentionedNumbers_def Let_def t)
qed

text \<open>After the three last steps of stripping, an \<open>@\<close> is followed by a space or by nothing.\<close>

lemma atsFollowedBy_Cons: "atsFollowedBy P (c # cs) \<Longrightarrow> atsFollowedBy P cs"
  by (cases cs) simp_all

lemma atsFollowedBy_append: "atsFollowedBy P (xs @ ys) \<Longrightarrow> atsFollowedBy P xs \<and> atsFollowedBy P ys"
proof (induction xs rule: atsFollowedBy.induct[of _ P])
  case (1 P)
  then show ?case by simp
next
  case (2 P c)
  then show ?case using atsFollowedBy_Cons[of P c ys] by simp
next
  case (3 P c d r)
  then show ?case by simp
qed

lemma atsFollowedBy_dropWhile: "atsFollowedBy P xs \<Longrightarrow> atsFollowedBy P (dropWhile Q xs)"
  using atsFollowedBy_append[of P "takeWhile Q xs" "dropWhile Q xs"] by simp

lemma atsFollowedBy_at:
  "atsFollowedBy P xs \<Longrightarrow> xs = a @ 64 # c # b \<Longrightarrow> P c"
  using atsFollowedBy_append[of P a "64 # c # b"] by simp

lemma removeAtTokens_head: "c \<noteq> 64 \<Longrightarrow> removeAtTokens (c # cs) = c # removeAtTokens cs"
  by simp

lemma removeAtTokens_detached: "atsFollowedBy isSpace (removeAtTokens t)"
proof (induction t rule: removeAtTokens.induct)
  case 1
  then show ?case by simp
next
  case (2 c cs)
  show ?case
  proof (cases "c = 64 \<and> takeWhile notSpace cs \<noteq> []")
    case True
    with 2 show ?thesis by simp
  next
    case False
    then have eq: "removeAtTokens (c # cs) = c # removeAtTokens cs" by auto
    from 2(2) False have ih: "atsFollowedBy isSpace (removeAtTokens cs)" by blast
    show ?thesis
    proof (cases cs)
      case Nil
      then show ?thesis by (simp add: eq)
    next
      case (Cons d ds)
      show ?thesis
      proof (cases "c = 64")
        case True
        with False Cons have sp: "isSpace d" by (auto simp: notSpace_def split: if_splits)
        then have "d \<noteq> 64" using not_space_64 by auto
        then have rc: "removeAtTokens cs = d # removeAtTokens ds" by (simp add: Cons)
        from ih sp have "atsFollowedBy isSpace (c # d # removeAtTokens ds)" by (simp add: rc)
        then show ?thesis unfolding eq rc .
      next
        case nat: False
        from ih nat have "atsFollowedBy isSpace (c # removeAtTokens cs)"
          by (cases "removeAtTokens cs") simp_all
        then show ?thesis unfolding eq .
      qed
    qed
  qed
qed

lemma collapseWs_head_space: "isSpace d \<Longrightarrow> \<exists>r. collapseWs (d # ds) = 32 # r"
  by simp

lemma collapseWs_detached:
  "atsFollowedBy isSpace t \<Longrightarrow> atsFollowedBy (\<lambda>d. d = 32) (collapseWs t)"
proof (induction t rule: collapseWs.induct)
  case 1
  then show ?case by simp
next
  case (2 c cs)
  show ?case
  proof (cases "isSpace c")
    case True
    from 2(3) have "atsFollowedBy isSpace (dropWhile isSpace cs)"
      by (intro atsFollowedBy_dropWhile) (rule atsFollowedBy_Cons)
    from 2(1)[OF True this] have ih: "atsFollowedBy (\<lambda>d. d = 32) (collapseWs (dropWhile isSpace cs))" .
    have "(32::nat) \<noteq> 64" by simp
    with ih True show ?thesis
      by (cases "collapseWs (dropWhile isSpace cs)") simp_all
  next
    case False
    from 2(3) have "atsFollowedBy isSpace cs" by (rule atsFollowedBy_Cons)
    from 2(2)[OF False this] have ih: "atsFollowedBy (\<lambda>d. d = 32) (collapseWs cs)" .
    show ?thesis
    proof (cases cs)
      case Nil
      with False show ?thesis by simp
    next
      case (Cons d ds)
      show ?thesis
      proof (cases "c = 64")
        case True
        with 2(3) Cons have "isSpace d" by simp
        with collapseWs_head_space obtain r where r: "collapseWs (d # ds) = 32 # r" by blast
        with ih False Cons show ?thesis by simp
      next
        case nat: False
        with ih False show ?thesis by (cases "collapseWs cs") simp_all
      qed
    qed
  qed
qed

lemma trim_detached: "atsFollowedBy P t \<Longrightarrow> atsFollowedBy P (trim t)"
proof -
  assume a: "atsFollowedBy P t"
  let ?u = "dropWhile isSpace t"
  have u: "atsFollowedBy P ?u" using a by (rule atsFollowedBy_dropWhile)
  have "rev ?u = takeWhile isSpace (rev ?u) @ dropWhile isSpace (rev ?u)" by simp
  then have "?u = rev (dropWhile isSpace (rev ?u)) @ rev (takeWhile isSpace (rev ?u))"
    by (metis rev_append rev_rev_ident)
  with u atsFollowedBy_append[of P "rev (dropWhile isSpace (rev ?u))" "rev (takeWhile isSpace (rev ?u))"]
  show ?thesis by (simp add: trim_def)
qed

lemma extractActualMessage_detached:
  "atsFollowedBy (\<lambda>d. d = 32) (extractActualMessage t names numbers)"
  by (simp add: extractActualMessage_def Let_def trim_detached collapseWs_detached removeAtTokens_detached)

text \<open>
  C3 (amended). When the token \<open>@1234567890\<close> is not directly followed by a further
  digit, the extracted numbers contain \<open>1234567890\<close>. In the stripped text every \<open>@\<close>
  that is left is followed by a space or stands at the end, so the token does not occur
  in it.
\<close>

theorem extract_and_strip_number_token:
  assumes "post = [] \<or> \<not> isDigit (hd post)"
  shows "str ''1234567890'' \<in> set (extractMentionedNumbers (pre @ str ''@1234567890'' @ post))
       \<and> (\<forall>a c b. extractActualMessage (pre @ str ''@1234567890'' @ post)
                      (extractMentionedNames (pre @ str ''@1234567890'' @ post))
                      (extractMentionedNumbers (pre @ str ''@1234567890'' @ post)) = a @ 64 # c # b
                  \<longrightarrow> c = 32)
       \<and> \<not> sublist (str ''@1234567890'')
             (extractActualMessage (pre @ str ''@1234567890'' @ post)
                (extractMentionedNames (pre @ str ''@1234567890'' @ post))
                (extractMentionedNumbers (pre @ str ''@1234567890'' @ post)))"
proof -
  let ?t = "pre @ str ''@1234567890'' @ post"
  let ?r = "extractActualMessage ?t (extractMentionedNames ?t) (extractMentionedNumbers ?t)"
  have d: "atsFollowedBy (\<lambda>d. d = 32) ?r" by (rule extractActualMessage_detached)
  have 2: "\<forall>a c b. ?r = a @ 64 # c # b \<longrightarrow> c = 32"
    using atsFollowedBy_at[OF d] by blast
  have 3: "\<not> sublist (str ''@1234567890'') ?r"
  proof
    assume "sublist (str ''@1234567890'') ?r"
    then obtain a b where "?r = a @ str ''@1234567890'' @ b" by (auto simp: sublist_def)
    then have "?r = a @ 64 # 49 # (str ''234567890'' @ b)" by (simp add: strs)
    with 2 have "(49::nat) = 32" by blast
    then show False by simp
  qed
  from extractMentionedNumbers_token[OF assms, of pre] 2 3 show ?thesis by blast
qed

theorem extract_and_strip_number_token_witness:
  "str ''1234567890'' \<in> set (extractMentionedNumbers (str ''Hey @1234567890 tell him''))
   \<and> \<not> sublist (str ''@1234567890'')
         (extractActualMessage (str ''Hey @1234567890 tell him'')
            (extractMentionedNames (str ''Hey @1234567890 tell him''))
            (extractMentionedNumbers (str ''Hey @1234567890 tell him'')))"
proof -
  have h: "str '' tell him'' = [] \<or> \<not> isDigit (hd (str '' tell him''))"
    by (simp add: strs isDigit_def)
  have t: "str ''Hey '' @ str ''@1234567890'' @ str '' tell him'' = str ''Hey @1234567890 tell him''"
    by (simp add: strs)
  from extract_and_strip_number_token[OF h, of "str ''Hey ''"] show ?thesis
    unfolding t by blast
qed

text \<open>
  C3 as stated fails: the text \<open>@1234567890 @\<close> contains the token, and the stripped text
  is \<open>@\<close>.
\<close>

theorem strip_leaves_lone_at:
  "sublist (str ''@1234567890'') (str ''@1234567890 @'')
   \<and> extractActualMessage (str ''@1234567890 @'')
        (extractMentionedNames (str ''@1234567890 @''))
        (extractMentionedNumbers (str ''@1234567890 @'')) = [64]"
proof -
  have "jsIncludes (str ''@1234567890 @'') (str ''@1234567890'')" by (simp add: strs)
  then have s: "sublist (str ''@1234567890'') (str ''@1234567890 @'')"
    by (simp add: jsIncludes_sublist)
  have nn: "extractMentionedNumbers (str ''@1234567890 @'') = [str ''1234567890'']"
    by (simp add: extract_defs cls strs Let_def)
  have nm: "extractMentionedNames (str ''@1234567890 @'') = []"
    by (simp add: extract_defs cls strs Let_def upt_rec)
  have "extractActualMessage (str ''@1234567890 @'') [] [str ''1234567890''] = [64]"
    by (simp add: extract_defs cls strs Let_def)
  with s nn nm show ?thesis by simp
qed

section \<open>Extracting names\<close>

lemma set_foldl_pushNew: "set (foldl pushNew acc ys) = set acc \<union> set ys"
  by (induction ys arbitrary: acc) (auto simp: pushNew_def)

lemma set_atSymbolPositions: "set (atSymbolPositions t) = {i. i < length t \<and> t ! i = 64}"
  by (auto simp: atSymbolPositions_def)

lemma extractMentionedNames_set:
  "set (extractMentionedNames t) =
     (\<Union>i\<in>{i. i < length t \<and> t ! i = 64}. set (nameAt t i)) \<union> set (scanUnderscore t)"
proof (cases "t = []")
  case True
  then show ?thesis by (simp add: extractMentionedNames_def)
next
  case False
  then show ?thesis
    by (simp add: extractMentionedNames_def set_foldl_pushNew set_atSymbolPositions)
qed

lemma nameAt_preceded: "0 < i \<Longrightarrow> isAlnum (t ! (i - 1)) \<Longrightarrow> nameAt t i = []"
  by (simp add: nameAt_def)

lemma upper_not_space: "isUpper c \<Longrightarrow> \<not> isSpace c"
  by (auto simp: isUpper_def isSpace_def)

lemma space_not_lower: "isSpace c \<Longrightarrow> \<not> isLower c"
  by (auto simp: isLower_def isSpace_def)

lemma takeWhile_run:
  assumes "list_all P xs" and "r = [] \<or> \<not> P (hd r)"
  shows "takeWhile P (xs @ r) = xs" and "dropWhile P (xs @ r) = r"
proof -
  from assms(2) have t: "takeWhile P r = []" and d: "dropWhile P r = r"
    by (cases r; simp)+
  from assms(1) have a: "\<And>x. x \<in> set xs \<Longrightarrow> P x" by (simp add: list_all_iff)
  show "takeWhile P (xs @ r) = xs" using a by (simp add: takeWhile_append2 t)
  show "dropWhile P (xs @ r) = r" using a by (simp add: dropWhile_append2 d)
qed

text \<open>
  \<open>capWord\<close> finds a word exactly when the text starts with an uppercase letter and a
  lowercase letter, and then takes the uppercase letter with all the lowercase letters
  that follow it.
\<close>

lemma capWord_iff:
  "(capWord s = Some (w, r)) = (s = w @ r \<and> capitalised w \<and> (r = [] \<or> \<not> isLower (hd r)))"
proof
  assume c: "capWord s = Some (w, r)"
  then obtain c0 cs where s: "s = c0 # cs" and u: "isUpper c0" and ne: "takeWhile isLower cs \<noteq> []"
    and w: "w = c0 # takeWhile isLower cs" and r: "r = dropWhile isLower cs"
    by (auto simp: capWord_def split: list.splits if_splits)
  have "list_all isLower (takeWhile isLower cs)"
    by (auto simp: list_all_iff dest: set_takeWhileD)
  with u ne w have cap: "capitalised w" by (simp add: capitalised_def)
  have "r = [] \<or> \<not> isLower (hd r)"
    using hd_dropWhile[of isLower cs] r by auto
  with s w r cap show "s = w @ r \<and> capitalised w \<and> (r = [] \<or> \<not> isLower (hd r))" by simp
next
  assume a: "s = w @ r \<and> capitalised w \<and> (r = [] \<or> \<not> isLower (hd r))"
  then obtain c0 l where w: "w = c0 # l" and u: "isUpper c0" and ne: "l \<noteq> []" and al: "list_all isLower l"
    by (auto simp: capitalised_def split: list.splits)
  from a have m: "r = [] \<or> \<not> isLower (hd r)" by simp
  from a w have s: "s = c0 # (l @ r)" by simp
  show "capWord s = Some (w, r)"
    using u ne by (simp add: capWord_def s w takeWhile_run[OF al m])
qed

lemma capWord_capitalised: "capWord s = Some (w, r) \<Longrightarrow> capitalised w"
  by (simp add: capWord_iff)

lemma capWord_finds:
  assumes "capitalised w"
  shows "capWord (w @ r) \<noteq> None"
proof -
  from assms obtain c0 l where w: "w = c0 # l" and u: "isUpper c0" and ne: "l \<noteq> []" and al: "list_all isLower l"
    by (auto simp: capitalised_def split: list.splits)
  from ne al obtain x xs where l: "l = x # xs" and x: "isLower x" by (cases l) auto
  show ?thesis using u x by (simp add: capWord_def w l)
qed

lemma spaceRun_split:
  assumes "spaceRun ws" and "capitalised w"
  shows "takeWhile isSpace (ws @ w @ r) = ws" and "dropWhile isSpace (ws @ w @ r) = w @ r"
proof -
  from assms(2) obtain c0 l where w: "w = c0 # l" and u: "isUpper c0"
    by (auto simp: capitalised_def split: list.splits)
  have m: "w @ r = [] \<or> \<not> isSpace (hd (w @ r))"
    using upper_not_space[OF u] by (simp add: w)
  from assms(1) have al: "list_all isSpace ws" by (simp add: spaceRun_def)
  show "takeWhile isSpace (ws @ w @ r) = ws" by (rule takeWhile_run(1)[OF al m])
  show "dropWhile isSpace (ws @ w @ r) = w @ r" by (rule takeWhile_run(2)[OF al m])
qed

lemma followedByCap_hd: "followedByCap s \<Longrightarrow> s \<noteq> [] \<and> isSpace (hd s)"
  by (auto simp: followedByCap_def spaceRun_def list_all_iff neq_Nil_conv)

lemma matchNameTail_None_iff: "(matchNameTail s = None) = (\<not> followedByCap s)"
proof
  assume n: "matchNameTail s = None"
  show "\<not> followedByCap s"
  proof
    assume "followedByCap s"
    then obtain ws w r where s: "s = ws @ w @ r" and sp: "spaceRun ws" and cap: "capitalised w"
      by (auto simp: followedByCap_def)
    from sp have ne: "ws \<noteq> []" by (simp add: spaceRun_def)
    from capWord_finds[OF cap, of r] obtain m1 r2 where c: "capWord (w @ r) = Some (m1, r2)"
      by (cases "capWord (w @ r)") auto
    have "matchNameTail s \<noteq> None"
      using ne by (simp add: matchNameTail_def s spaceRun_split[OF sp cap] c split: option.splits)
    with n show False by simp
  qed
next
  assume nf: "\<not> followedByCap s"
  show "matchNameTail s = None"
  proof (rule ccontr)
    assume "matchNameTail s \<noteq> None"
    then obtain m1 r2 where ne: "takeWhile isSpace s \<noteq> []"
      and c: "capWord (dropWhile isSpace s) = Some (m1, r2)"
      by (auto simp: matchNameTail_def split: if_splits option.splits)
    from c have d: "dropWhile isSpace s = m1 @ r2" and cap: "capitalised m1"
      by (simp_all add: capWord_iff)
    have "s = takeWhile isSpace s @ m1 @ r2"
      using takeWhile_dropWhile_id[of isSpace s] d by simp
    moreover have "spaceRun (takeWhile isSpace s)"
      using ne by (auto simp: spaceRun_def list_all_iff dest: set_takeWhileD)
    ultimately have "followedByCap s" using cap by (auto simp: followedByCap_def)
    with nf show False by simp
  qed
qed

lemma followedByCap_decomp:
  assumes "followedByCap s"
  shows "\<exists>ws w r. s = ws @ w @ r \<and> spaceRun ws \<and> capitalised w \<and> (r = [] \<or> \<not> isLower (hd r))"
proof -
  from assms have "matchNameTail s \<noteq> None" by (simp add: matchNameTail_None_iff)
  then obtain m1 r2 where ne: "takeWhile isSpace s \<noteq> []"
    and c: "capWord (dropWhile isSpace s) = Some (m1, r2)"
    by (auto simp: matchNameTail_def split: if_splits option.splits)
  from c have d: "dropWhile isSpace s = m1 @ r2" and cap: "capitalised m1"
    and m: "r2 = [] \<or> \<not> isLower (hd r2)"
    by (simp_all add: capWord_iff)
  have "s = takeWhile isSpace s @ m1 @ r2"
    using takeWhile_dropWhile_id[of isSpace s] d by simp
  moreover have "spaceRun (takeWhile isSpace s)"
    using ne by (auto simp: spaceRun_def list_all_iff dest: set_takeWhileD)
  ultimately show ?thesis using cap m by blast
qed

lemma matchNameTail_one:
  assumes s: "s = ws1 @ w1 @ r2" and sp: "spaceRun ws1" and cap: "capitalised w1"
    and m: "r2 = [] \<or> \<not> isLower (hd r2)" and nf: "\<not> followedByCap r2"
  shows "matchNameTail s = Some (w1, None)"
proof -
  from sp have ne: "ws1 \<noteq> []" by (simp add: spaceRun_def)
  have c: "capWord (w1 @ r2) = Some (w1, r2)" using cap m by (simp add: capWord_iff)
  have "takeWhile isSpace r2 = [] \<or> capWord (dropWhile isSpace r2) = None"
  proof (rule ccontr)
    assume "\<not> (takeWhile isSpace r2 = [] \<or> capWord (dropWhile isSpace r2) = None)"
    then obtain w2 r3 where n2: "takeWhile isSpace r2 \<noteq> []"
      and c2: "capWord (dropWhile isSpace r2) = Some (w2, r3)" by auto
    from c2 have d: "dropWhile isSpace r2 = w2 @ r3" and cap2: "capitalised w2"
      by (simp_all add: capWord_iff)
    have "r2 = takeWhile isSpace r2 @ w2 @ r3"
      using takeWhile_dropWhile_id[of isSpace r2] d by simp
    moreover have "spaceRun (takeWhile isSpace r2)"
      using n2 by (auto simp: spaceRun_def list_all_iff dest: set_takeWhileD)
    ultimately have "followedByCap r2" using cap2 by (auto simp: followedByCap_def)
    with nf show False by simp
  qed
  then show ?thesis
    using ne by (auto simp: matchNameTail_def s spaceRun_split[OF sp cap] c)
qed

lemma matchNameTail_two:
  assumes s: "s = ws1 @ w1 @ ws2 @ w2 @ r3" and sp1: "spaceRun ws1" and cap1: "capitalised w1"
    and sp2: "spaceRun ws2" and cap2: "capitalised w2" and m: "r3 = [] \<or> \<not> isLower (hd r3)"
  shows "matchNameTail s = Some (w1, Some (ws2 @ w2))"
proof -
  from sp1 have ne1: "ws1 \<noteq> []" by (simp add: spaceRun_def)
  from sp2 obtain x xs where ws2: "ws2 = x # xs" and x: "isSpace x"
    by (cases ws2) (auto simp: spaceRun_def)
  from sp2 have ne2: "ws2 \<noteq> []" by (simp add: spaceRun_def)
  have m1: "ws2 @ w2 @ r3 = [] \<or> \<not> isLower (hd (ws2 @ w2 @ r3))"
    using space_not_lower[OF x] by (simp add: ws2)
  have c1: "capWord (w1 @ ws2 @ w2 @ r3) = Some (w1, ws2 @ w2 @ r3)"
    using cap1 m1 by (simp add: capWord_iff)
  have c2: "capWord (w2 @ r3) = Some (w2, r3)"
    using cap2 m by (simp add: capWord_iff)
  show ?thesis
    using ne1 ne2
    by (simp add: matchNameTail_def s spaceRun_split[OF sp1 cap1] c1 spaceRun_split[OF sp2 cap2] c2)
qed

lemma nameAt_Nil_iff: "(nameAt t i = []) = (\<not> validAt t i)"
  by (auto simp: nameAt_def validAt_def firstWordAt_def Let_def split: option.splits)

lemma nameAt_valid:
  assumes "validAt t i"
  shows "nameAt t i =
           (case matchNameTail (restAt t i) of
              Some (m1, m2) \<Rightarrow> [firstWordAt t i @ [32] @ m1 @ (case m2 of None \<Rightarrow> [] | Some w \<Rightarrow> w)]
            | None \<Rightarrow> [firstWordAt t i])"
proof -
  from assms have c1: "(0 < i \<and> isAlnum (t ! (i - 1))) = False"
    and c2: "(list_ex isDigit (takeWhile notStop (drop (i + 1) t))
              \<or> length (takeWhile notStop (drop (i + 1) t)) < 2) = False"
    by (auto simp: validAt_def firstWordAt_def)
  show ?thesis
    by (simp only: nameAt_def Let_def c1 c2 if_False firstWordAt_def restAt_def)
qed

lemma nameAt_single:
  "validAt t i \<Longrightarrow> \<not> followedByCap (restAt t i) \<Longrightarrow> nameAt t i = [firstWordAt t i]"
  by (simp add: nameAt_valid matchNameTail_None_iff[symmetric])

lemma nameAt_one_more:
  assumes "validAt t i" and "restAt t i = ws1 @ w1 @ r2" and "spaceRun ws1" and "capitalised w1"
    and "r2 = [] \<or> \<not> isLower (hd r2)" and "\<not> followedByCap r2"
  shows "nameAt t i = [firstWordAt t i @ 32 # w1]"
  using matchNameTail_one[OF assms(2-6)] by (simp add: nameAt_valid[OF assms(1)])

lemma nameAt_two_more:
  assumes "validAt t i" and "restAt t i = ws1 @ w1 @ ws2 @ w2 @ r3" and "spaceRun ws1"
    and "capitalised w1" and "spaceRun ws2" and "capitalised w2"
    and "r3 = [] \<or> \<not> isLower (hd r3)"
  shows "nameAt t i = [firstWordAt t i @ 32 # w1 @ ws2 @ w2]"
  using matchNameTail_two[OF assms(2-7)] by (simp add: nameAt_valid[OF assms(1)])

lemma nameAt_john_smith:
  assumes "pre = [] \<or> \<not> isAlnum (last pre)"
  shows "nameAt (pre @ str ''@John Smith please review'' @ post) (length pre) = [str ''John Smith'']"
proof -
  let ?t = "pre @ str ''@John Smith please review'' @ post"
  have t: "?t = pre @ 64 # (str ''John Smith please review'' @ post)" by (simp add: strs)
  have skip: "\<not> (0 < length pre \<and> isAlnum (?t ! (length pre - 1)))"
  proof (cases pre rule: rev_cases)
    case Nil
    then show ?thesis by simp
  next
    case (snoc ys y)
    with assms have "\<not> isAlnum y" by simp
    then show ?thesis by (simp add: snoc nth_append)
  qed
  have d: "drop (length pre + 1) ?t = str ''John Smith please review'' @ post"
    by (simp add: t)
  have fw: "takeWhile notStop (str ''John Smith please review'' @ post) = str ''John''"
    by (simp add: strs cls)
  have rem: "dropWhile notStop (str ''John Smith please review'' @ post) = str '' Smith please review'' @ post"
    by (simp add: strs cls)
  have tail: "matchNameTail (str '' Smith please review'' @ post) = Some (str ''Smith'', None)"
    by (simp add: matchNameTail_def capWord_def strs cls)
  have ok: "\<not> list_ex isDigit (str ''John'')" "\<not> length (str ''John'') < 2"
    by (simp_all add: strs cls)
  have j: "str ''John'' @ [32] @ str ''Smith'' @ [] = str ''John Smith''" by (simp add: strs)
  show ?thesis
    unfolding nameAt_def Let_def d fw rem tail using skip ok by (simp add: strs)
qed

lemma extractMentionedNames_john_smith:
  assumes "pre = [] \<or> \<not> isAlnum (last pre)"
  shows "str ''John Smith'' \<in> set (extractMentionedNames (pre @ str ''@John Smith please review'' @ post))"
proof -
  let ?t = "pre @ str ''@John Smith please review'' @ post"
  have "length pre < length ?t" by (simp add: strs)
  moreover have "?t ! length pre = 64" by (simp add: strs nth_append)
  moreover have "str ''John Smith'' \<in> set (nameAt ?t (length pre))"
    by (simp add: nameAt_john_smith[OF assms])
  ultimately show ?thesis unfolding extractMentionedNames_set by blast
qed

lemma strip_john_smith:
  "extractActualMessage (str ''@John Smith please review'')
     (extractMentionedNames (str ''@John Smith please review''))
     (extractMentionedNumbers (str ''@John Smith please review'')) = str ''please review''"
proof -
  have nm: "extractMentionedNames (str ''@John Smith please review'') = [str ''John Smith'']"
    by (simp add: extract_defs cls strs Let_def upt_rec)
  have nn: "extractMentionedNumbers (str ''@John Smith please review'') = []"
    by (simp add: extract_defs cls strs Let_def)
  have "extractActualMessage (str ''@John Smith please review'') [str ''John Smith''] [] = str ''please review''"
    by (simp add: extract_defs cls strs Let_def)
  with nm nn show ?thesis by simp
qed

text \<open>
  C4 (amended). The names are those found at the positions of \<open>@\<close>, together with the
  underscore compounds. A position gives a name exactly when the \<open>@\<close> is not right
  behind a letter or digit and the run of characters behind it, up to the next white
  space or punctuation mark, has at least two characters and no digit. The name is that
  run alone when the text does not go on with white space and an uppercase letter with a
  lowercase letter behind it; otherwise a space and that uppercase letter with all the
  lowercase letters behind it are added, and in the same way, with the white space as it
  stands, a second such word when one follows, and no third. When
  \<open>@John Smith please review\<close> stands at the start of the text or behind a character that
  is not a letter or digit, the names include \<open>John Smith\<close>; for that text alone the
  stripped text is \<open>please review\<close>.
\<close>

theorem extractMentionedNames_exact:
  "set (extractMentionedNames t) =
     (\<Union>i\<in>{i. i < length t \<and> t ! i = 64}. set (nameAt t i)) \<union> set (scanUnderscore t)
   \<and> (nameAt t i = []) = (\<not> validAt t i)
   \<and> validAt t i =
       (\<not> (0 < i \<and> isAlnum (t ! (i - 1)))
        \<and> \<not> list_ex isDigit (takeWhile notStop (drop (i + 1) t))
        \<and> 2 \<le> length (takeWhile notStop (drop (i + 1) t)))
   \<and> (validAt t i \<and> \<not> followedByCap (restAt t i) \<longrightarrow> nameAt t i = [firstWordAt t i])
   \<and> (validAt t i \<and> restAt t i = ws1 @ w1 @ r2 \<and> spaceRun ws1 \<and> capitalised w1
        \<and> (r2 = [] \<or> \<not> isLower (hd r2)) \<and> \<not> followedByCap r2
        \<longrightarrow> nameAt t i = [firstWordAt t i @ 32 # w1])
   \<and> (validAt t i \<and> restAt t i = ws1 @ w1 @ ws2 @ w2 @ r3 \<and> spaceRun ws1 \<and> capitalised w1
        \<and> spaceRun ws2 \<and> capitalised w2 \<and> (r3 = [] \<or> \<not> isLower (hd r3))
        \<longrightarrow> nameAt t i = [firstWordAt t i @ 32 # w1 @ ws2 @ w2])
   \<and> (followedByCap s
        \<longrightarrow> (\<exists>ws w r. s = ws @ w @ r \<and> spaceRun ws \<and> capitalised w \<and> (r = [] \<or> \<not> isLower (hd r))))
   \<and> (pre = [] \<or> \<not> isAlnum (last pre)
        \<longrightarrow> str ''John Smith'' \<in> set (extractMentionedNames (pre @ str ''@John Smith please review'' @ post)))
   \<and> extractActualMessage (str ''@John Smith please review'')
        (extractMentionedNames (str ''@John Smith please review''))
        (extractMentionedNumbers (str ''@John Smith please review'')) = str ''please review''"
proof -
  have v: "validAt t i =
       (\<not> (0 < i \<and> isAlnum (t ! (i - 1)))
        \<and> \<not> list_ex isDigit (takeWhile notStop (drop (i + 1) t))
        \<and> 2 \<le> length (takeWhile notStop (drop (i + 1) t)))"
    by (simp add: validAt_def firstWordAt_def)
  show ?thesis
    using extractMentionedNames_set[of t] nameAt_Nil_iff[of t i] v nameAt_single[of t i]
      nameAt_one_more[of t i ws1 w1 r2] nameAt_two_more[of t i ws1 w1 ws2 w2 r3]
      followedByCap_decomp[of s] extractMentionedNames_john_smith[of pre post] strip_john_smith
    by blast
qed

text \<open>
  Instances: \<open>@Al Bo Cy Di\<close> gives \<open>Al Bo Cy\<close> (two words absorbed, not the third);
  \<open>@John McDonald\<close> gives \<open>John Mc\<close> (the lowercase run ends at \<open>D\<close>); and the example
  of the claim behind \<open>Hi, \<close>.
\<close>

theorem extractMentionedNames_exact_witness:
  "nameAt (str ''@Al Bo Cy Di'') 0 = [str ''Al Bo Cy'']
   \<and> nameAt (str ''@John McDonald'') 0 = [str ''John Mc'']
   \<and> str ''John Smith'' \<in> set (extractMentionedNames (str ''Hi, @John Smith please review now''))"
proof -
  have sp: "spaceRun (str '' '')" by (simp add: spaceRun_def cls strs)
  have cap: "capitalised (str ''Bo'')" "capitalised (str ''Cy'')" "capitalised (str ''Mc'')"
    by (simp_all add: capitalised_def cls strs)
  have v1: "validAt (str ''@Al Bo Cy Di'') 0"
    by (simp add: validAt_def firstWordAt_def cls strs)
  have f1: "firstWordAt (str ''@Al Bo Cy Di'') 0 = str ''Al''"
    by (simp add: firstWordAt_def cls strs)
  have r1: "restAt (str ''@Al Bo Cy Di'') 0 = str '' '' @ str ''Bo'' @ str '' '' @ str ''Cy'' @ str '' Di''"
    by (simp add: restAt_def cls strs)
  have m1: "str '' Di'' = [] \<or> \<not> isLower (hd (str '' Di''))" by (simp add: cls strs)
  have a: "nameAt (str ''@Al Bo Cy Di'') 0 = [str ''Al Bo Cy'']"
    using extractMentionedNames_exact[of "str ''@Al Bo Cy Di''" 0 "str '' ''" "str ''Bo''" "[]"
        "str '' ''" "str ''Cy''" "str '' Di''" "[]" "[]" "[]",
        THEN conjunct2, THEN conjunct2, THEN conjunct2, THEN conjunct2, THEN conjunct2, THEN conjunct1]
      v1 r1 sp cap m1
    by (simp add: f1) (simp add: strs)
  have v2: "validAt (str ''@John McDonald'') 0"
    by (simp add: validAt_def firstWordAt_def cls strs)
  have f2: "firstWordAt (str ''@John McDonald'') 0 = str ''John''"
    by (simp add: firstWordAt_def cls strs)
  have r2: "restAt (str ''@John McDonald'') 0 = str '' '' @ str ''Mc'' @ str ''Donald''"
    by (simp add: restAt_def cls strs)
  have m2: "str ''Donald'' = [] \<or> \<not> isLower (hd (str ''Donald''))" by (simp add: cls strs)
  have nf: "\<not> followedByCap (str ''Donald'')"
    using followedByCap_hd[of "str ''Donald''"] by (auto simp: cls strs)
  have b: "nameAt (str ''@John McDonald'') 0 = [str ''John Mc'']"
    using extractMentionedNames_exact[of "str ''@John McDonald''" 0 "str '' ''" "str ''Mc''" "str ''Donald''"
        "[]" "[]" "[]" "[]" "[]" "[]",
        THEN conjunct2, THEN conjunct2, THEN conjunct2, THEN conjunct2, THEN conjunct1]
      v2 r2 sp cap m2 nf
    by (simp add: f2) (simp add: strs)
  have h: "str ''Hi, '' = [] \<or> \<not> isAlnum (last (str ''Hi, ''))"
    by (simp add: strs cls)
  have t: "str ''Hi, '' @ str ''@John Smith please review'' @ str '' now'' = str ''Hi, @John Smith please review now''"
    by (simp add: strs)
  have c: "str ''John Smith'' \<in> set (extractMentionedNames (str ''Hi, @John Smith please review now''))"
    using extractMentionedNames_exact[of "[]" 0 "[]" "[]" "[]" "[]" "[]" "[]" "[]" "str ''Hi, ''" "str '' now''",
        THEN conjunct2, THEN conjunct2, THEN conjunct2, THEN conjunct2, THEN conjunct2, THEN conjunct2,
        THEN conjunct2, THEN conjunct1] h
    unfolding t by blast
  from a b c show ?thesis by simp
qed

text \<open>
  C4 as stated fails: a text that contains \<open>@John Smith please review\<close> behind other
  words keeps those words when stripped.
\<close>

theorem strip_keeps_text_before_mention:
  "sublist (str ''@John Smith please review'') (str ''Hi @John Smith please review'')
   \<and> extractActualMessage (str ''Hi @John Smith please review'')
        (extractMentionedNames (str ''Hi @John Smith please review''))
        (extractMentionedNumbers (str ''Hi @John Smith please review'')) = str ''Hi please review''
   \<and> str ''Hi please review'' \<noteq> str ''please review''"
proof -
  have "jsIncludes (str ''Hi @John Smith please review'') (str ''@John Smith please review'')"
    by (simp add: strs)
  then have s: "sublist (str ''@John Smith please review'') (str ''Hi @John Smith please review'')"
    by (simp add: jsIncludes_sublist)
  have nm: "extractMentionedNames (str ''Hi @John Smith please review'') = [str ''John Smith'']"
    by (simp add: extract_defs cls strs Let_def upt_rec)
  have nn: "extractMentionedNumbers (str ''Hi @John Smith please review'') = []"
    by (simp add: extract_defs cls strs Let_def)
  have "extractActualMessage (str ''Hi @John Smith please review'') [str ''John Smith''] []
          = str ''Hi please review''"
    by (simp add: extract_defs cls strs Let_def)
  with s nm nn show ?thesis by (simp add: strs)
qed

end
